theory Spec2Isabelle
  imports Complex_Main "HOL-Library.AList" "HOL-Library.Sublist" "HOL-Library.Log_Nat"
begin

section \<open>The session manager and request scheduler of RunAILlamaCpp.js\<close>

text \<open>
  The class \<^verbatim>\<open>RunAILlamaCpp\<close> keeps a map of sessions, a request queue and a
  re-entrancy flag. Its methods are \<^verbatim>\<open>async\<close>: a method runs without interruption
  up to an \<^verbatim>\<open>await\<close> on the inference engine and is resumed when the awaited promise
  settles. The embedding follows that structure.

  \<^item> Every call into the engine (\<^verbatim>\<open>createContext\<close>, \<^verbatim>\<open>prompt\<close>, \<^verbatim>\<open>dispose\<close>) is
    an input of the model: its outcome is a parameter, which carries the message of the
    error when the call throws.
  \<^item> Every read of the clock (\<^verbatim>\<open>new Date()\<close>, \<^verbatim>\<open>Date.now()\<close>) is a parameter, in
    milliseconds since the epoch.
  \<^item> The session objects stored in the map are mutated through references held by suspended
    calls, so they live in an explicit store \<open>heap\<close> from addresses to objects; the map holds
    addresses. Objects are never freed (the runtime collects them).
  \<^item> The calls made to the outside (engine prompts, context disposals, and the
    \<^verbatim>\<open>resolve\<close>/\<^verbatim>\<open>reject\<close> of a caller's promise) are appended to the field \<open>effects\<close>,
    in the order the code makes them.
  \<^item> A string is the list of the bytes of its UTF-8 encoding. A number is the rational it
    denotes, and an arithmetic operation on numbers is the exact one followed by the
    rounding to a double (\<open>roundDouble\<close>). Time values are the integers of valid dates,
    which are doubles.
\<close>

subsection \<open>Data\<close>

type_synonym addr = nat
type_synonym ctx = nat
type_synonym promise = nat
type_synonym time = int

text \<open>The errors thrown by the class, one constructor per message.\<close>

datatype error =
    ModelNotInitialized
  | MaxSessionsReached nat
  | SessionExists string
  | SessionNotFound string
  | CreateSessionFailed string
  | ProcessMessageFailed string
  | DeleteSessionFailed string
  | InvalidSystemRole
  | InitializeFailed string

text \<open>A value read from a parsed JSON request body (\<open>JUndefined\<close>: the key is absent).\<close>

datatype json = JUndefined | JNull | JBool bool | JNum rat | JStr string | JObject

fun falsy :: "json \<Rightarrow> bool" where
  "falsy JUndefined = True"
| "falsy JNull = True"
| "falsy (JBool b) = (\<not> b)"
| "falsy (JNum n) = (n = 0)"
| "falsy (JStr s) = (s = [])"
| "falsy JObject = False"

fun typeof_string :: "json \<Rightarrow> bool" where
  "typeof_string (JStr s) = True"
| "typeof_string _ = False"

record historyEntry =
  role :: string
  content :: string
  timestamp :: time

text \<open>The \<^verbatim>\<open>LlamaChatSession\<close> built at creation: the context sequence and the system prompt.\<close>

record chatSession =
  contextSequence :: ctx
  systemPrompt :: string

record sessionData =
  session :: chatSession
  contextOf :: ctx
  history :: "historyEntry list"
  createdAt :: time
  lastActivity :: time
  systemRoleSet :: bool

text \<open>
  A queued request. \<open>promise\<close> stands for the pair \<^verbatim>\<open>resolve\<close>/\<^verbatim>\<open>reject\<close> of the promise
  created by \<^verbatim>\<open>sendMessage\<close>; promises are numbered in the order they are created.
\<close>

record request =
  sessionId :: string
  message :: string
  promise :: promise
  enqueuedAt :: time

datatype effect =
    PromptCall chatSession string
  | Dispose ctx
  | Resolve promise string
  | Reject promise error

text \<open>
  \<open>sessions\<close> is the JavaScript \<^verbatim>\<open>Map\<close>, in insertion order. The next three fields hold
  the calls suspended at an \<^verbatim>\<open>await\<close>, with the local variables they use when resumed.
  \<open>awaiting\<close> holds the suspended drains: each is a call of \<^verbatim>\<open>_processQueue\<close> waiting for
  the \<^verbatim>\<open>prompt\<close> of the request it shifted, with the session object that
  \<^verbatim>\<open>_processMessage\<close> fetched. \<open>creating\<close> holds the calls of \<^verbatim>\<open>createSession\<close> waiting for
  their context, each with its \<^verbatim>\<open>id\<close>; \<open>disposing\<close> the calls of \<^verbatim>\<open>deleteSession\<close>
  waiting for the disposal, each with its \<^verbatim>\<open>sessionId\<close>.
\<close>

record state =
  isInitialized :: bool
  sessions :: "(string \<times> addr) list"
  processingQueue :: "request list"
  currentlyProcessing :: bool
  maxConcurrentSessions :: nat
  systemRole :: string
  heap :: "addr \<Rightarrow> sessionData"
  nextAddr :: addr
  nextPromise :: promise
  awaiting :: "(request \<times> addr) list"
  creating :: "string list"
  disposing :: "string list"
  effects :: "effect list"

subsection \<open>Construction and initialisation\<close>

definition emptyObject :: sessionData where
  "emptyObject = \<lparr>session = \<lparr>contextSequence = 0, systemPrompt = []\<rparr>, contextOf = 0,
     history = [], createdAt = 0, lastActivity = 0, systemRoleSet = False\<rparr>"

text \<open>The constructor; \<open>envRole\<close> is \<^verbatim>\<open>process.env.AI_SYSTEM_ROLE\<close>.\<close>

definition constructor :: "string option \<Rightarrow> state" where
  "constructor envRole =
     \<lparr>isInitialized = False, sessions = [], processingQueue = [],
      currentlyProcessing = False, maxConcurrentSessions = 10,
      systemRole = (case envRole of
                      None \<Rightarrow> ''You are a helpful assistant.''
                    | Some r \<Rightarrow> if r = [] then ''You are a helpful assistant.'' else r),
      heap = (\<lambda>a. emptyObject), nextAddr = 0, nextPromise = 0, awaiting = [],
      creating = [], disposing = [], effects = []\<rparr>"

text \<open>\<open>loaded\<close> is the outcome of loading the model: \<open>Some msg\<close> when it throws.\<close>

definition initialize :: "state \<Rightarrow> string option \<Rightarrow> (error + unit) \<times> state" where
  "initialize s loaded =
     (case loaded of
        Some msg \<Rightarrow> (Inl (InitializeFailed msg), s)
      | None \<Rightarrow> (Inr (), s\<lparr>isInitialized := True\<rparr>))"

subsection \<open>createSession\<close>

text \<open>
  \<^verbatim>\<open>createSession\<close> up to its \<^verbatim>\<open>await\<close>: the three tests, which return the \<^verbatim>\<open>id\<close> of
  the session to create. \<open>uuid\<close> is what \<^verbatim>\<open>uuidv4()\<close> returns when it is called.
\<close>

definition createSession_begin :: "state \<Rightarrow> string option \<Rightarrow> string \<Rightarrow> error + string" where
  "createSession_begin s sessionIdArg uuid =
     (if \<not> isInitialized s then Inl ModelNotInitialized
      else if length (sessions s) \<ge> maxConcurrentSessions s
        then Inl (MaxSessionsReached (maxConcurrentSessions s))
      else
        let newId = (case sessionIdArg of
                       None \<Rightarrow> uuid
                     | Some x \<Rightarrow> if x = [] then uuid else x)
        in if map_of (sessions s) newId \<noteq> None then Inl (SessionExists newId)
           else Inr newId)"

text \<open>
  \<^verbatim>\<open>createSession\<close> from its \<^verbatim>\<open>await\<close> on. \<open>created\<close> is the outcome of the \<^verbatim>\<open>try\<close>
  block's engine calls (\<^verbatim>\<open>createContext\<close> and the construction of the chat session): the
  context handle, or the message of the error thrown. \<open>tCreated\<close> and \<open>tActivity\<close> are the
  two clock reads.
\<close>

definition createSession_resume ::
  "state \<Rightarrow> string \<Rightarrow> string + ctx \<Rightarrow> time \<Rightarrow> time \<Rightarrow> (error + string) \<times> state"
where
  "createSession_resume s newId created tCreated tActivity =
     (case created of
        Inl msg \<Rightarrow> (Inl (CreateSessionFailed msg), s)
      | Inr c \<Rightarrow>
          (Inr newId,
           s\<lparr>sessions := AList.update newId (nextAddr s) (sessions s),
             heap := (heap s)(nextAddr s :=
               \<lparr>session = \<lparr>contextSequence = c, systemPrompt = systemRole s\<rparr>,
                contextOf = c, history = [], createdAt = tCreated,
                lastActivity = tActivity, systemRoleSet = True\<rparr>),
             nextAddr := Suc (nextAddr s)\<rparr>))"

text \<open>The whole of \<^verbatim>\<open>createSession\<close>, when nothing else runs during its \<^verbatim>\<open>await\<close>.\<close>

definition createSession ::
  "state \<Rightarrow> string option \<Rightarrow> string \<Rightarrow> string + ctx \<Rightarrow> time \<Rightarrow> time \<Rightarrow> (error + string) \<times> state"
where
  "createSession s sessionIdArg uuid created tCreated tActivity =
     (case createSession_begin s sessionIdArg uuid of
        Inl err \<Rightarrow> (Inl err, s)
      | Inr newId \<Rightarrow> createSession_resume s newId created tCreated tActivity)"

subsection \<open>The request queue\<close>

text \<open>
  \<^verbatim>\<open>String.prototype.trim\<close> removes white space and line terminators from both ends:
  U+0009 to U+000D, U+0020, U+00A0, U+1680, U+2000 to U+200A, U+2028, U+2029, U+202F,
  U+205F, U+3000 and U+FEFF, here in UTF-8.
\<close>

definition whiteSpace :: "string list" where
  "whiteSpace =
     [[CHR 0x09], [CHR 0x0A], [CHR 0x0B], [CHR 0x0C], [CHR 0x0D], [CHR 0x20],
      [CHR 0xC2, CHR 0xA0],
      [CHR 0xE1, CHR 0x9A, CHR 0x80],
      [CHR 0xE2, CHR 0x80, CHR 0x80], [CHR 0xE2, CHR 0x80, CHR 0x81],
      [CHR 0xE2, CHR 0x80, CHR 0x82], [CHR 0xE2, CHR 0x80, CHR 0x83],
      [CHR 0xE2, CHR 0x80, CHR 0x84], [CHR 0xE2, CHR 0x80, CHR 0x85],
      [CHR 0xE2, CHR 0x80, CHR 0x86], [CHR 0xE2, CHR 0x80, CHR 0x87],
      [CHR 0xE2, CHR 0x80, CHR 0x88], [CHR 0xE2, CHR 0x80, CHR 0x89],
      [CHR 0xE2, CHR 0x80, CHR 0x8A],
      [CHR 0xE2, CHR 0x80, CHR 0xA8], [CHR 0xE2, CHR 0x80, CHR 0xA9],
      [CHR 0xE2, CHR 0x80, CHR 0xAF],
      [CHR 0xE2, CHR 0x81, CHR 0x9F],
      [CHR 0xE3, CHR 0x80, CHR 0x80],
      [CHR 0xEF, CHR 0xBB, CHR 0xBF]]"

text \<open>\<open>stripStart ws s\<close> removes from the front of \<open>s\<close> every leading occurrence of a sequence of \<open>ws\<close>.\<close>

function stripStart :: "string list \<Rightarrow> string \<Rightarrow> string" where
  "stripStart ws s =
     (case find (\<lambda>w. w \<noteq> [] \<and> prefix w s) ws of
        None \<Rightarrow> s
      | Some w \<Rightarrow> stripStart ws (drop (length w) s))"
  by pat_completeness auto
termination
  by (relation "measure (\<lambda>(ws, s). length s)") (auto simp: find_Some_iff prefix_def)

declare stripStart.simps [simp del]

definition trim :: "string \<Rightarrow> string" where
  "trim s = rev (stripStart (map rev whiteSpace) (rev (stripStart whiteSpace s)))"

definition reinforcedMessage :: "string \<Rightarrow> string \<Rightarrow> string" where
  "reinforcedMessage sysRole msg =
     ''System: '' @ sysRole @ [CHR 0x0A, CHR 0x0A] @ ''User: '' @ msg"

text \<open>
  \<^verbatim>\<open>_processMessage\<close> up to its \<^verbatim>\<open>await\<close>: the session lookup, the push of the user
  entry and the call of \<^verbatim>\<open>prompt\<close>. It returns the address of the session object it
  holds while suspended.
\<close>

definition processMessage_begin ::
  "state \<Rightarrow> string \<Rightarrow> string \<Rightarrow> time \<Rightarrow> error + (addr \<times> state)"
where
  "processMessage_begin s sid msg tUser =
     (case map_of (sessions s) sid of
        None \<Rightarrow> Inl (SessionNotFound sid)
      | Some a \<Rightarrow>
          Inr (a,
            s\<lparr>heap := (heap s)(a := (heap s a)\<lparr>history := history (heap s a) @
                  [\<lparr>role = ''user'', content = msg, timestamp = tUser\<rparr>]\<rparr>),
              effects := effects s @
                  [PromptCall (session (heap s a)) (reinforcedMessage (systemRole s) msg)]\<rparr>))"

text \<open>
  \<^verbatim>\<open>_processMessage\<close> from its \<^verbatim>\<open>await\<close> on: \<open>outcome\<close> is what \<^verbatim>\<open>prompt\<close> settled
  with, \<open>a\<close> the session object fetched before the call.
\<close>

definition processMessage_resume ::
  "state \<Rightarrow> addr \<Rightarrow> string + string \<Rightarrow> time \<Rightarrow> time \<Rightarrow> (error + string) \<times> state"
where
  "processMessage_resume s a outcome tAssistant tActivity =
     (case outcome of
        Inl msg \<Rightarrow> (Inl (ProcessMessageFailed msg), s)
      | Inr rawResponse \<Rightarrow>
          let response = trim rawResponse
          in (Inr response,
              s\<lparr>heap := (heap s)(a := (heap s a)\<lparr>history := history (heap s a) @
                    [\<lparr>role = ''assistant'', content = response, timestamp = tAssistant\<rparr>],
                  lastActivity := tActivity\<rparr>)\<rparr>))"

text \<open>The whole of \<^verbatim>\<open>_processMessage\<close>, when nothing else runs during its \<^verbatim>\<open>await\<close>.\<close>

definition processMessage ::
  "state \<Rightarrow> string \<Rightarrow> string \<Rightarrow> time \<Rightarrow> string + string \<Rightarrow> time \<Rightarrow> time
     \<Rightarrow> (error + string) \<times> state"
where
  "processMessage s sid msg tUser outcome tAssistant tActivity =
     (case processMessage_begin s sid msg tUser of
        Inl err \<Rightarrow> (Inl err, s)
      | Inr (a, s1) \<Rightarrow> processMessage_resume s1 a outcome tAssistant tActivity)"

text \<open>
  The \<^verbatim>\<open>while\<close> loop of \<^verbatim>\<open>_processQueue\<close>, from its test to the next \<^verbatim>\<open>await\<close> that
  suspends on the engine, or to the end of the loop. A request whose session is missing is
  rejected and the loop goes on.
\<close>

function drainLoop :: "state \<Rightarrow> time \<Rightarrow> state" where
  "drainLoop s tUser =
     (case processingQueue s of
        [] \<Rightarrow> s\<lparr>currentlyProcessing := False\<rparr>
      | req # rest \<Rightarrow>
          (case processMessage_begin (s\<lparr>processingQueue := rest\<rparr>)
                  (sessionId req) (message req) tUser of
             Inl err \<Rightarrow>
               drainLoop (s\<lparr>processingQueue := rest,
                            effects := effects s @ [Reject (promise req) err]\<rparr>) tUser
           | Inr (a, s1) \<Rightarrow> s1\<lparr>awaiting := awaiting s1 @ [(req, a)]\<rparr>))"
  by pat_completeness auto
termination
  by (relation "measure (\<lambda>(s, t). length (processingQueue s))") auto

declare drainLoop.simps [simp del]

definition processQueue :: "state \<Rightarrow> time \<Rightarrow> state" where
  "processQueue s tUser =
     (if currentlyProcessing s \<or> processingQueue s = [] then s
      else drainLoop (s\<lparr>currentlyProcessing := True\<rparr>) tUser)"

text \<open>
  \<^verbatim>\<open>sendMessage\<close>, up to the return of its promise: \<open>now\<close> is \<^verbatim>\<open>Date.now()\<close>, \<open>tUser\<close> the
  clock read of the drain it may start.
\<close>

definition sendMessage ::
  "state \<Rightarrow> string \<Rightarrow> string \<Rightarrow> time \<Rightarrow> time \<Rightarrow> (error + promise) \<times> state"
where
  "sendMessage s sid msg now tUser =
     (if map_of (sessions s) sid = None then (Inl (SessionNotFound sid), s)
      else (Inr (nextPromise s),
            processQueue
              (s\<lparr>processingQueue := processingQueue s @
                    [\<lparr>sessionId = sid, message = msg, promise = nextPromise s,
                      enqueuedAt = now\<rparr>],
                 nextPromise := Suc (nextPromise s)\<rparr>) tUser))"

text \<open>
  The job that runs when the \<^verbatim>\<open>prompt\<close> awaited by the \<open>k\<close>-th suspended drain settles:
  the rest of \<^verbatim>\<open>_processMessage\<close>, the \<^verbatim>\<open>resolve\<close> or \<^verbatim>\<open>reject\<close> of the request, and
  the loop again.
\<close>

definition promptSettled ::
  "state \<Rightarrow> nat \<Rightarrow> string + string \<Rightarrow> time \<Rightarrow> time \<Rightarrow> time \<Rightarrow> state"
where
  "promptSettled s k outcome tAssistant tActivity tUser =
     (if length (awaiting s) \<le> k then s
      else
        let req = fst (awaiting s ! k);
            a = snd (awaiting s ! k);
            s1 = s\<lparr>awaiting := take k (awaiting s) @ drop (Suc k) (awaiting s)\<rparr>
        in (case processMessage_resume s1 a outcome tAssistant tActivity of
              (Inr response, s2) \<Rightarrow>
                drainLoop (s2\<lparr>effects := effects s2 @ [Resolve (promise req) response]\<rparr>) tUser
            | (Inl err, s2) \<Rightarrow>
                drainLoop (s2\<lparr>effects := effects s2 @ [Reject (promise req) err]\<rparr>) tUser))"

subsection \<open>History, deletion, system role, reaper\<close>

definition getHistory :: "state \<Rightarrow> string \<Rightarrow> error + historyEntry list" where
  "getHistory s sid =
     (case map_of (sessions s) sid of
        None \<Rightarrow> Inl (SessionNotFound sid)
      | Some a \<Rightarrow> Inr (history (heap s a)))"

text \<open>
  \<^verbatim>\<open>deleteSession\<close> up to its \<^verbatim>\<open>await\<close>: the lookup and the call of
  \<^verbatim>\<open>context.dispose()\<close>. The context of a stored session is an object, so the test
  \<^verbatim>\<open>if (sessionData.context)\<close> passes.
\<close>

definition deleteSession_begin :: "state \<Rightarrow> string \<Rightarrow> error + state" where
  "deleteSession_begin s sid =
     (case map_of (sessions s) sid of
        None \<Rightarrow> Inl (SessionNotFound sid)
      | Some a \<Rightarrow> Inr (s\<lparr>effects := effects s @ [Dispose (contextOf (heap s a))]\<rparr>))"

text \<open>
  \<^verbatim>\<open>deleteSession\<close> from its \<^verbatim>\<open>await\<close> on: \<open>disposal\<close> is the outcome of the disposal,
  \<open>Some msg\<close> when it throws.
\<close>

definition deleteSession_resume ::
  "state \<Rightarrow> string \<Rightarrow> string option \<Rightarrow> (error + unit) \<times> state"
where
  "deleteSession_resume s sid disposal =
     (case disposal of
        Some msg \<Rightarrow> (Inl (DeleteSessionFailed msg), s)
      | None \<Rightarrow> (Inr (), s\<lparr>sessions := AList.delete sid (sessions s)\<rparr>))"

text \<open>The whole of \<^verbatim>\<open>deleteSession\<close>, when nothing else runs during its \<^verbatim>\<open>await\<close>.\<close>

definition deleteSession :: "state \<Rightarrow> string \<Rightarrow> string option \<Rightarrow> (error + unit) \<times> state" where
  "deleteSession s sid disposal =
     (case deleteSession_begin s sid of
        Inl err \<Rightarrow> (Inl err, s)
      | Inr s1 \<Rightarrow> deleteSession_resume s1 sid disposal)"

definition updateSystemRole :: "state \<Rightarrow> json \<Rightarrow> (error + unit) \<times> state" where
  "updateSystemRole s newRole =
     (if falsy newRole \<or> \<not> typeof_string newRole then (Inl InvalidSystemRole, s)
      else (case newRole of
              JStr r \<Rightarrow> (Inr (), s\<lparr>systemRole := r\<rparr>)
            | _ \<Rightarrow> (Inl InvalidSystemRole, s)))"

definition getSystemRole :: "state \<Rightarrow> string" where
  "getSystemRole s = systemRole s"

text \<open>
  The rounding of a rational to the nearest double (IEEE 754 binary64, ties to even):
  \<open>exponent x\<close> is the integer \<open>e\<close> with \<open>2 ^ e \<le> x < 2 ^ (e + 1)\<close> for a positive \<open>x\<close>, a
  double has 53 significant bits, and below \<open>2 ^ (-1022)\<close> the doubles are \<open>2 ^ (-1074)\<close>
  apart. Overflow to infinity is left out: no quotient of the code reaches it.
\<close>

definition pow2 :: "int \<Rightarrow> rat" where
  "pow2 e = (if 0 \<le> e then 2 ^ nat e else 1 / 2 ^ nat (- e))"

definition exponent :: "rat \<Rightarrow> int" where
  "exponent x =
     (case quotient_of x of
        (p, q) \<Rightarrow> let k = bitlen p - bitlen q in if pow2 k \<le> x then k else k - 1)"

definition roundHalfEven :: "rat \<Rightarrow> int" where
  "roundHalfEven x =
     (let f = \<lfloor>x\<rfloor>; r = x - of_int f
      in if r < 1 / 2 then f else if 1 / 2 < r then f + 1 else if even f then f else f + 1)"

definition roundDouble :: "rat \<Rightarrow> rat" where
  "roundDouble x =
     (if x = 0 then 0
      else let e = max (exponent \<bar>x\<bar> - 52) (- 1074)
           in sgn x * of_int (roundHalfEven (\<bar>x\<bar> / pow2 e)) * pow2 e)"

text \<open>
  The first loop of \<^verbatim>\<open>cleanupInactiveSessions\<close>: the ids whose age in minutes is above
  \<open>maxAgeMinutes\<close>, in the order of the map. The age is the difference of the two time
  values, a double, divided by the double \<open>1000 * 60\<close>.
\<close>

definition ageMinutes :: "time \<Rightarrow> sessionData \<Rightarrow> rat" where
  "ageMinutes now d =
     roundDouble (roundDouble (of_int now - of_int (lastActivity d)) / (1000 * 60))"

fun sessionsToDelete :: "(addr \<Rightarrow> sessionData) \<Rightarrow> rat \<Rightarrow> time \<Rightarrow> (string \<times> addr) list \<Rightarrow> string list"
where
  "sessionsToDelete h maxAgeMinutes now [] = []"
| "sessionsToDelete h maxAgeMinutes now ((sid, a) # entries) =
     (if ageMinutes now (h a) > maxAgeMinutes
      then sid # sessionsToDelete h maxAgeMinutes now entries
      else sessionsToDelete h maxAgeMinutes now entries)"

text \<open>
  The second loop: \<^verbatim>\<open>deleteSession\<close> on each id, an error being logged and dropped.
  \<open>disposal sid\<close> is the outcome of the disposal made for \<open>sid\<close>.
\<close>

fun deleteEach :: "state \<Rightarrow> string list \<Rightarrow> (string \<Rightarrow> string option) \<Rightarrow> state" where
  "deleteEach s [] disposal = s"
| "deleteEach s (sid # rest) disposal =
     deleteEach (snd (deleteSession s sid (disposal sid))) rest disposal"

definition cleanupInactiveSessions ::
  "state \<Rightarrow> rat \<Rightarrow> time \<Rightarrow> (string \<Rightarrow> string option) \<Rightarrow> nat \<times> state"
where
  "cleanupInactiveSessions s maxAgeMinutes now disposal =
     (let ids = sessionsToDelete (heap s) maxAgeMinutes now (sessions s)
      in (length ids, deleteEach s ids disposal))"

subsection \<open>The route that posts a message\<close>

text \<open>
  The handler of \<^verbatim>\<open>POST /sessions/:sessionId/messages\<close> in chatRoutes.js, up to its
  \<^verbatim>\<open>await\<close>: it answers at once with a status code, or waits for the promise of
  \<^verbatim>\<open>sendMessage\<close>. \<open>body\<close> is \<^verbatim>\<open>req.body.message\<close>. The only error \<^verbatim>\<open>sendMessage\<close>
  throws has a message that includes \<^verbatim>\<open>not found\<close>.
\<close>

datatype reply = Status nat | Pending promise

definition postMessage :: "state \<Rightarrow> string \<Rightarrow> json \<Rightarrow> time \<Rightarrow> time \<Rightarrow> reply \<times> state" where
  "postMessage s sid body now tUser =
     (if falsy body \<or> \<not> typeof_string body then (Status 400, s)
      else (case body of
              JStr msg \<Rightarrow>
                (case sendMessage s sid msg now tUser of
                   (Inl (SessionNotFound x), s') \<Rightarrow> (Status 404, s')
                 | (Inl err, s') \<Rightarrow> (Status 500, s')
                 | (Inr p, s') \<Rightarrow> (Pending p, s'))
            | _ \<Rightarrow> (Status 400, s)))"

subsection \<open>The jobs of the event loop\<close>

text \<open>
  The server runs one job at a time, each to its end or to an \<^verbatim>\<open>await\<close> on the engine.
  A job is a call of a method of the class up to its \<^verbatim>\<open>await\<close>, or the resumption of a
  suspended call when the engine settles what it waits for: a drain (\<open>PromptSettled\<close>), a
  \<^verbatim>\<open>createSession\<close> (\<open>ContextSettled\<close>) or a \<^verbatim>\<open>deleteSession\<close> (\<open>DisposeSettled\<close>); \<open>k\<close>
  says which of the suspended calls is resumed. Between the rejection of a request whose
  session is missing and the next turn of the loop no other job runs. The events
  \<open>CreateSession\<close>, \<open>DeleteSession\<close> and \<open>CleanupInactiveSessions\<close> are the calls whose
  engine calls settle before any other job runs; a sweep interleaved with other jobs is the
  sequence of the \<^verbatim>\<open>deleteSession\<close> calls it makes. \<^verbatim>\<open>cleanup\<close>, which runs once at
  shutdown before the process exits, is not a job of the serving loop.
\<close>

datatype event =
    Initialize "string option"
  | CreateSession "string option" string "string + ctx" time time
  | SendMessage string string time time
  | PromptSettled nat "string + string" time time time
  | DeleteSession string "string option"
  | UpdateSystemRole json
  | CleanupInactiveSessions rat time "string \<Rightarrow> string option"
  | CreateSessionBegin "string option" string
  | ContextSettled nat "string + ctx" time time
  | DeleteSessionBegin string
  | DisposeSettled nat "string option"

fun step :: "state \<Rightarrow> event \<Rightarrow> state" where
  "step s (Initialize loaded) = snd (initialize s loaded)"
| "step s (CreateSession sessionIdArg uuid created tCreated tActivity) =
     snd (createSession s sessionIdArg uuid created tCreated tActivity)"
| "step s (SendMessage sid msg now tUser) = snd (sendMessage s sid msg now tUser)"
| "step s (PromptSettled k outcome tAssistant tActivity tUser) =
     promptSettled s k outcome tAssistant tActivity tUser"
| "step s (DeleteSession sid disposal) = snd (deleteSession s sid disposal)"
| "step s (UpdateSystemRole newRole) = snd (updateSystemRole s newRole)"
| "step s (CleanupInactiveSessions maxAgeMinutes now disposal) =
     snd (cleanupInactiveSessions s maxAgeMinutes now disposal)"
| "step s (CreateSessionBegin sessionIdArg uuid) =
     (case createSession_begin s sessionIdArg uuid of
        Inl err \<Rightarrow> s
      | Inr newId \<Rightarrow> s\<lparr>creating := creating s @ [newId]\<rparr>)"
| "step s (ContextSettled k created tCreated tActivity) =
     (if length (creating s) \<le> k then s
      else snd (createSession_resume
                  (s\<lparr>creating := take k (creating s) @ drop (Suc k) (creating s)\<rparr>)
                  (creating s ! k) created tCreated tActivity))"
| "step s (DeleteSessionBegin sid) =
     (case deleteSession_begin s sid of
        Inl err \<Rightarrow> s
      | Inr s1 \<Rightarrow> s1\<lparr>disposing := disposing s1 @ [sid]\<rparr>)"
| "step s (DisposeSettled k disposal) =
     (if length (disposing s) \<le> k then s
      else snd (deleteSession_resume
                  (s\<lparr>disposing := take k (disposing s) @ drop (Suc k) (disposing s)\<rparr>)
                  (disposing s ! k) disposal))"

definition run :: "state \<Rightarrow> event list \<Rightarrow> state" where
  "run s evs = foldl step s evs"

subsection \<open>Reading the order of service off the effects\<close>

text \<open>
  \<open>laneStep\<close> reads the effects from the first on, keeping the number \<open>n\<close> of the next
  promise to settle and whether a prompt is in flight. It fails (\<open>None\<close>) when a prompt is
  called while another is in flight, when a promise other than \<open>n\<close> is settled, when a
  promise is resolved or rejected with an engine failure and no prompt is in flight, or when
  it is rejected for another reason while one is.
\<close>

fun laneStep :: "(nat \<times> bool) option \<Rightarrow> effect \<Rightarrow> (nat \<times> bool) option" where
  "laneStep None e = None"
| "laneStep (Some (n, busy)) (PromptCall cs txt) = (if busy then None else Some (n, True))"
| "laneStep (Some (n, busy)) (Resolve p response) =
     (if busy \<and> p = n then Some (Suc n, False) else None)"
| "laneStep (Some (n, busy)) (Reject p err) =
     (if p = n \<and> (case err of ProcessMessageFailed msg \<Rightarrow> busy | _ \<Rightarrow> \<not> busy)
      then Some (Suc n, False) else None)"
| "laneStep (Some (n, busy)) (Dispose c) = Some (n, busy)"

definition serialLog :: "effect list \<Rightarrow> (nat \<times> bool) option" where
  "serialLog es = foldl laneStep (Some (0, False)) es"


fun promptTexts :: "effect list \<Rightarrow> string list" where
  "promptTexts [] = []"
| "promptTexts (PromptCall cs txt # es) = txt # promptTexts es"
| "promptTexts (e # es) = promptTexts es"

text \<open>
  What holds between two jobs: at most one drain is suspended, the flag is set exactly
  while one is, the queue is empty when none is, and the effects so far are served in the
  order of the promise numbers, the pending requests being the next ones in that order.
\<close>

definition laneInv :: "state \<Rightarrow> bool" where
  "laneInv s =
     (length (awaiting s) \<le> 1 \<and>
      (currentlyProcessing s = (awaiting s \<noteq> [])) \<and>
      (awaiting s = [] \<longrightarrow> processingQueue s = []) \<and>
      (\<exists>n. n \<le> nextPromise s \<and> serialLog (effects s) = Some (n, awaiting s \<noteq> []) \<and>
           map promise (map fst (awaiting s) @ processingQueue s) = [n..<nextPromise s]))"

text \<open>
  What holds of the session objects between two jobs: the objects of the map and of the
  suspended drains have been allocated, and the last entry of the history of a session
  whose prompt is in flight is the user entry of the request in flight.
\<close>

definition turnInv :: "state \<Rightarrow> bool" where
  "turnInv s =
     ((\<forall>(sid, a) \<in> set (sessions s). a < nextAddr s) \<and>
      (\<forall>(req, a) \<in> set (awaiting s).
          a < nextAddr s \<and> history (heap s a) \<noteq> [] \<and>
          role (last (history (heap s a))) = ''user'' \<and>
          content (last (history (heap s a))) = message req))"

text \<open>No request waiting in the queue or in flight has the empty message.\<close>

definition nonEmptyMessages :: "state \<Rightarrow> bool" where
  "nonEmptyMessages s =
     list_all (\<lambda>r. message r \<noteq> []) (map fst (awaiting s) @ processingQueue s)"

subsection \<open>The system role over a run\<close>

fun isRoleUpdate :: "event \<Rightarrow> bool" where
  "isRoleUpdate (UpdateSystemRole newRole) = True"
| "isRoleUpdate e = False"

text \<open>The role most recently set by a call that did not throw, \<open>r\<close> when there is none.\<close>

fun roleAfter :: "string \<Rightarrow> event list \<Rightarrow> string" where
  "roleAfter r [] = r"
| "roleAfter r (UpdateSystemRole (JStr x) # evs) = roleAfter (if x = [] then r else x) evs"
| "roleAfter r (e # evs) = roleAfter r evs"

subsection \<open>States used as examples\<close>

text \<open>
  A server whose model is loaded, and the same with the sessions \<^verbatim>\<open>s1\<close> and \<^verbatim>\<open>s2\<close>
  created at the instants 1000 and 2000.
\<close>

definition started :: state where
  "started = snd (initialize (constructor None) None)"

definition twoSessions :: state where
  "twoSessions =
     snd (createSession (snd (createSession started (Some ''s1'') ''u1'' (Inr 1) 1000 1000))
            (Some ''s2'') ''u2'' (Inr 2) 2000 2000)"

text \<open>
  \<open>busy\<close>: a message for \<^verbatim>\<open>s1\<close> has been sent and its prompt is in flight. \<open>answered\<close>:
  that prompt has been answered, at the instant 3000000. \<open>queued\<close>:
  a message for \<^verbatim>\<open>s2\<close> has been sent meanwhile. \<open>recreated\<close>: then \<^verbatim>\<open>s2\<close> has been
  deleted and a session of the same id created. \<open>raced\<close>:
  meanwhile a message for \<^verbatim>\<open>s1\<close> and one for \<^verbatim>\<open>s2\<close> have been queued, and then
  \<^verbatim>\<open>s1\<close> has been deleted.
\<close>

definition busy :: state where
  "busy = snd (sendMessage twoSessions ''s1'' ''hello'' 5000 5001)"


definition queued :: state where
  "queued = snd (sendMessage busy ''s2'' ''bonjour'' 6002 6003)"




definition terse :: state where
  "terse = run queued [UpdateSystemRole (JStr ''Be terse.'')]"

text \<open>
  Eleven calls of \<^verbatim>\<open>createSession\<close> with distinct ids, the engine giving the contexts 1 to
  11: in \<open>creations\<close> each call ends before the next is made; in \<open>overlapping\<close> the eleven
  calls are made before the engine gives the first context, as when eleven requests
  \<^verbatim>\<open>POST /sessions\<close> are received together. \<open>tenSessions\<close> is the server after the first
  ten calls of \<open>creations\<close>.
\<close>

definition elevenIds :: "string list" where
  "elevenIds = [''a'', ''b'', ''c'', ''d'', ''e'', ''f'', ''g'', ''h'', ''i'', ''j'', ''k'']"

definition elevenContexts :: "ctx list" where
  "elevenContexts = [1, 2, 3, 4, 5, 6, 7, 8, 9, 10, 11]"

definition creations :: "event list" where
  "creations =
     map (\<lambda>(sid, c). CreateSession (Some sid) ''u'' (Inr c) (int c * 1000) (int c * 1000 + 1))
       (zip elevenIds elevenContexts)"

definition overlapping :: "event list" where
  "overlapping =
     map (\<lambda>sid. CreateSessionBegin (Some sid) ''u'') elevenIds
     @ map (\<lambda>c. ContextSettled 0 (Inr c) (int c * 1000) (int c * 1000 + 1)) elevenContexts"

definition tenSessions :: state where
  "tenSessions = run started (take 10 creations)"

text \<open>
  A run from the constructor: two sessions, three messages of which the first is in flight
  at once, the deletion of \<^verbatim>\<open>s1\<close>, then a prompt that succeeds and one that fails.
\<close>

definition day :: "event list" where
  "day = [Initialize None,
          CreateSession (Some ''s1'') ''u1'' (Inr 1) 1000 1000,
          CreateSessionBegin None ''u2'',
          ContextSettled 0 (Inr 2) 2000 2000,
          SendMessage ''u2'' ''a'' 3000 3001,
          SendMessage ''s1'' ''b'' 3002 3003,
          SendMessage ''u2'' ''c'' 3004 3005,
          DeleteSessionBegin ''s1'',
          DisposeSettled 0 None,
          PromptSettled 0 (Inr ''A'') 4000 4001 4002,
          PromptSettled 0 (Inl ''out of memory'') 5000 5001 5002]"

section \<open>Properties\<close>

subsection \<open>The example states, evaluated\<close>

lemma trim_examples:
  "trim ''hi  '' = ''hi''"
  "trim ''hi'' = ''hi''"
  "trim ''A'' = ''A''"
  by code_simp+

lemma started_fields:
  "started = \<lparr>isInitialized = True, sessions = [], processingQueue = [],
      currentlyProcessing = False, maxConcurrentSessions = 10,
      systemRole = ''You are a helpful assistant.'',
      heap = (\<lambda>a. emptyObject), nextAddr = 0, nextPromise = 0, awaiting = [],
      creating = [], disposing = [], effects = []\<rparr>"
  by (simp add: started_def initialize_def constructor_def)

lemma twoSessions_fields:
  "sessions twoSessions = [(''s1'', 0), (''s2'', 1)]"
  "isInitialized twoSessions"
  "maxConcurrentSessions twoSessions = 10"
  "processingQueue twoSessions = []"
  "\<not> currentlyProcessing twoSessions"
  "awaiting twoSessions = []"
  "effects twoSessions = []"
  "nextPromise twoSessions = 0"
  "nextAddr twoSessions = 2"
  "systemRole twoSessions = ''You are a helpful assistant.''"
  "heap twoSessions 0 =
     \<lparr>session = \<lparr>contextSequence = 1, systemPrompt = ''You are a helpful assistant.''\<rparr>,
      contextOf = 1, history = [], createdAt = 1000, lastActivity = 1000,
      systemRoleSet = True\<rparr>"
  "heap twoSessions (Suc 0) =
     \<lparr>session = \<lparr>contextSequence = 2, systemPrompt = ''You are a helpful assistant.''\<rparr>,
      contextOf = 2, history = [], createdAt = 2000, lastActivity = 2000,
      systemRoleSet = True\<rparr>"
  by (simp_all add: twoSessions_def started_fields createSession_def createSession_begin_def createSession_resume_def Let_def)

subsection \<open>The drain loop, one step at a time\<close>

lemma drainLoop_empty:
  "processingQueue s = [] \<Longrightarrow> drainLoop s t = s\<lparr>currentlyProcessing := False\<rparr>"
  by (subst drainLoop.simps) simp

lemma drainLoop_missing:
  "processingQueue s = req # rest \<Longrightarrow> map_of (sessions s) (sessionId req) = None \<Longrightarrow>
   drainLoop s t =
     drainLoop (s\<lparr>processingQueue := rest,
                  effects := effects s @ [Reject (promise req) (SessionNotFound (sessionId req))]\<rparr>) t"
  by (subst drainLoop.simps) (simp add: processMessage_begin_def)

lemma drainLoop_live:
  "processingQueue s = req # rest \<Longrightarrow> map_of (sessions s) (sessionId req) = Some a \<Longrightarrow>
   drainLoop s t =
     s\<lparr>processingQueue := rest,
       heap := (heap s)(a := (heap s a)\<lparr>history := history (heap s a) @
                  [\<lparr>role = ''user'', content = message req, timestamp = t\<rparr>]\<rparr>),
       effects := effects s @
                  [PromptCall (session (heap s a)) (reinforcedMessage (systemRole s) (message req))],
       awaiting := awaiting s @ [(req, a)]\<rparr>"
  by (subst drainLoop.simps) (simp add: processMessage_begin_def)


lemma busy_fields:
  "sessions busy = [(''s1'', 0), (''s2'', 1)]"
  "processingQueue busy = []"
  "currentlyProcessing busy"
  "awaiting busy = [(\<lparr>sessionId = ''s1'', message = ''hello'', promise = 0, enqueuedAt = 5000\<rparr>, 0)]"
  "effects busy = [PromptCall \<lparr>contextSequence = 1, systemPrompt = ''You are a helpful assistant.''\<rparr>
      (reinforcedMessage ''You are a helpful assistant.'' ''hello'')]"
  "nextPromise busy = 1"
  "systemRole busy = ''You are a helpful assistant.''"
  "heap busy 0 =
     \<lparr>session = \<lparr>contextSequence = 1, systemPrompt = ''You are a helpful assistant.''\<rparr>,
      contextOf = 1, history = [\<lparr>role = ''user'', content = ''hello'', timestamp = 5001\<rparr>],
      createdAt = 1000, lastActivity = 1000, systemRoleSet = True\<rparr>"
  "heap busy (Suc 0) = heap twoSessions (Suc 0)"
  by (simp_all add: busy_def sendMessage_def processQueue_def twoSessions_fields drainLoop_live)



lemma queued_fields:
  "sessions queued = [(''s1'', 0), (''s2'', 1)]"
  "processingQueue queued =
     [\<lparr>sessionId = ''s2'', message = ''bonjour'', promise = 1, enqueuedAt = 6002\<rparr>]"
  "awaiting queued = awaiting busy"
  "effects queued = effects busy"
  "currentlyProcessing queued"
  "systemRole queued = ''You are a helpful assistant.''"
  "heap queued = heap busy"
  "nextPromise queued = 2"
  "isInitialized queued"
  "maxConcurrentSessions queued = 10"
  "nextAddr queued = 2"
  by (simp_all add: queued_def sendMessage_def processQueue_def busy_fields busy_def
      twoSessions_fields drainLoop_live)



lemma terse_fields:
  "sessions terse = [(''s1'', 0), (''s2'', 1)]"
  "processingQueue terse =
     [\<lparr>sessionId = ''s2'', message = ''bonjour'', promise = 1, enqueuedAt = 6002\<rparr>]"
  "awaiting terse = awaiting busy"
  "effects terse = effects busy"
  "systemRole terse = ''Be terse.''"
  "heap terse = heap busy"
  by (simp_all add: terse_def run_def updateSystemRole_def queued_fields)

lemma tenSessions_fields:
  "sessions tenSessions =
     [(''a'', 0), (''b'', 1), (''c'', 2), (''d'', 3), (''e'', 4), (''f'', 5), (''g'', 6),
      (''h'', 7), (''i'', 8), (''j'', 9)]"
  "isInitialized tenSessions"
  "maxConcurrentSessions tenSessions = 10"
  by (simp_all add: tenSessions_def creations_def elevenIds_def elevenContexts_def run_def
      started_fields createSession_def createSession_begin_def createSession_resume_def Let_def)

lemma createSession_full:
  "isInitialized s \<Longrightarrow> maxConcurrentSessions s \<le> length (sessions s) \<Longrightarrow>
   createSession s arg uuid created tc ta
     = (Inl (MaxSessionsReached (maxConcurrentSessions s)), s)"
  by (simp add: createSession_def createSession_begin_def createSession_resume_def)

subsection \<open>The keys of the map stay distinct\<close>






subsection \<open>Deleting a session\<close>

text \<open>
  Claim C2, as the code has it. For a live session id, \<^verbatim>\<open>deleteSession\<close> calls the
  disposal of the session's engine context. When the disposal succeeds the entry is removed
  from the map, the other entries staying as they are. When the disposal throws, the call
  fails with the \<^verbatim>\<open>Failed to delete session\<close> error and the map keeps the entry: the
  removal is the statement after the disposal inside the \<^verbatim>\<open>try\<close> block.
\<close>

theorem deleteSession_live:
  "map_of (sessions s) sid = Some a \<Longrightarrow>
     deleteSession s sid None =
       (Inr (), s\<lparr>effects := effects s @ [Dispose (contextOf (heap s a))],
                  sessions := AList.delete sid (sessions s)\<rparr>)
     \<and> map_of (sessions (snd (deleteSession s sid None))) sid = None
     \<and> (\<forall>other. other \<noteq> sid \<longrightarrow>
           map_of (sessions (snd (deleteSession s sid None))) other = map_of (sessions s) other)
     \<and> deleteSession s sid (Some msg) =
         (Inl (DeleteSessionFailed msg),
          s\<lparr>effects := effects s @ [Dispose (contextOf (heap s a))]\<rparr>)"
  by (simp add: deleteSession_def deleteSession_begin_def deleteSession_resume_def delete_conv)

theorem deleteSession_live_witness:
  "map_of (sessions twoSessions) ''s1'' = Some 0
   \<and> sessions (snd (deleteSession twoSessions ''s1'' None)) = [(''s2'', 1)]
   \<and> effects (snd (deleteSession twoSessions ''s1'' None)) = [Dispose 1]
   \<and> sessions (snd (deleteSession twoSessions ''s1'' (Some ''context busy'')))
       = [(''s1'', 0), (''s2'', 1)]"
proof -
  have live: "map_of (sessions twoSessions) ''s1'' = Some 0"
    by (simp add: twoSessions_fields)
  from deleteSession_live[OF live, of "''context busy''"] live show ?thesis
    by (simp add: twoSessions_fields)
qed

text \<open>
  Claim C2 as the specification states it fails: with a disposal that throws, the session
  \<^verbatim>\<open>s1\<close> is still in the map after the call, and the call has failed.
\<close>

theorem deleteSession_release_failure_counterexample:
  "fst (deleteSession twoSessions ''s1'' (Some ''context busy''))
     = Inl (DeleteSessionFailed ''context busy'')
   \<and> map_of (sessions (snd (deleteSession twoSessions ''s1'' (Some ''context busy'')))) ''s1''
     = Some 0"
  by (simp add: deleteSession_def deleteSession_begin_def deleteSession_resume_def twoSessions_fields)

subsection \<open>A failing prompt\<close>

text \<open>
  Claim C10. When the prompt fails, \<^verbatim>\<open>_processMessage\<close> throws the
  \<^verbatim>\<open>Failed to process message\<close> error; the history of the session has grown by the one
  user entry pushed before the call, \<open>lastActivity\<close> is what it was, and the map of sessions
  too. The part of \<^verbatim>\<open>_processMessage\<close> that runs after the \<^verbatim>\<open>await\<close> changes nothing,
  and the job in which the prompt settles rejects the promise of the request with that
  error, then goes on with the loop.
\<close>

theorem engine_failure_keeps_user_entry:
  "(map_of (sessions s) sid = Some a \<longrightarrow>
      fst (processMessage s sid msg tUser (Inl failure) tAssistant tActivity)
        = Inl (ProcessMessageFailed failure)
      \<and> history (heap (snd (processMessage s sid msg tUser (Inl failure) tAssistant tActivity)) a)
        = history (heap s a) @ [\<lparr>role = ''user'', content = msg, timestamp = tUser\<rparr>]
      \<and> lastActivity (heap (snd (processMessage s sid msg tUser (Inl failure) tAssistant tActivity)) a)
        = lastActivity (heap s a)
      \<and> sessions (snd (processMessage s sid msg tUser (Inl failure) tAssistant tActivity))
        = sessions s)
   \<and> processMessage_resume s a (Inl failure) tAssistant tActivity
        = (Inl (ProcessMessageFailed failure), s)
   \<and> (k < length (awaiting s) \<longrightarrow>
        promptSettled s k (Inl failure) tAssistant tActivity tUser =
          drainLoop (s\<lparr>awaiting := take k (awaiting s) @ drop (Suc k) (awaiting s),
                       effects := effects s @
                         [Reject (promise (fst (awaiting s ! k))) (ProcessMessageFailed failure)]\<rparr>)
            tUser)"
  by (simp add: processMessage_def processMessage_begin_def processMessage_resume_def
      promptSettled_def Let_def)

theorem engine_failure_keeps_user_entry_witness:
  "map_of (sessions twoSessions) ''s1'' = Some 0
   \<and> fst (processMessage twoSessions ''s1'' ''hello'' 5001 (Inl ''out of memory'') 5002 5003)
        = Inl (ProcessMessageFailed ''out of memory'')
   \<and> history (heap (snd (processMessage twoSessions ''s1'' ''hello'' 5001 (Inl ''out of memory'') 5002 5003)) 0)
        = [\<lparr>role = ''user'', content = ''hello'', timestamp = 5001\<rparr>]
   \<and> lastActivity (heap (snd (processMessage twoSessions ''s1'' ''hello'' 5001 (Inl ''out of memory'') 5002 5003)) 0)
        = 1000
   \<and> effects (promptSettled busy 0 (Inl ''out of memory'') 5002 5003 5004)
        = effects busy @ [Reject 0 (ProcessMessageFailed ''out of memory'')]
   \<and> history (heap (promptSettled busy 0 (Inl ''out of memory'') 5002 5003 5004) 0)
        = [\<lparr>role = ''user'', content = ''hello'', timestamp = 5001\<rparr>]"
proof -
  have live: "map_of (sessions twoSessions) ''s1'' = Some 0"
    and k: "0 < length (awaiting busy)"
    by (simp_all add: twoSessions_fields busy_fields)
  from engine_failure_keeps_user_entry[of twoSessions "''s1''" 0 "''hello''" 5001 "''out of memory''" 5002 5003 0]
    engine_failure_keeps_user_entry[of busy "''s1''" 0 "''hello''" 5004 "''out of memory''" 5002 5003 0]
    live k
  show ?thesis
    by (simp add: twoSessions_fields busy_fields drainLoop_empty)
qed

subsection \<open>The order of service\<close>

lemma serialLog_snoc: "serialLog (es @ [e]) = laneStep (serialLog es) e"
  by (simp add: serialLog_def)

lemma processMessage_begin_Inl:
  "processMessage_begin s sid msg t = Inl err \<Longrightarrow> err = SessionNotFound sid"
  by (auto simp: processMessage_begin_def split: option.splits)

lemma processMessage_begin_Inr:
  "processMessage_begin s sid msg t = Inr (a, s1) \<Longrightarrow>
     map_of (sessions s) sid = Some a \<and>
     s1 = s\<lparr>heap := (heap s)(a := (heap s a)\<lparr>history := history (heap s a) @
                  [\<lparr>role = ''user'', content = msg, timestamp = t\<rparr>]\<rparr>),
            effects := effects s @
                  [PromptCall (session (heap s a)) (reinforcedMessage (systemRole s) msg)]\<rparr>"
  by (auto simp: processMessage_begin_def split: option.splits)

lemma drainLoop_inv:
  "awaiting s = [] \<Longrightarrow> currentlyProcessing s \<Longrightarrow>
   serialLog (effects s) = Some (n, False) \<Longrightarrow> n \<le> nextPromise s \<Longrightarrow>
   map promise (processingQueue s) = [n..<nextPromise s] \<Longrightarrow>
   laneInv (drainLoop s t)"
proof (induction s t arbitrary: n rule: drainLoop.induct)
  case (1 s tUser)
  show ?case
  proof (cases "processingQueue s")
    case Nil
    with "1.prems" show ?thesis
      by (subst drainLoop.simps) (simp add: laneInv_def)
  next
    case (Cons req rest)
    from Cons "1.prems"(5) have hd: "promise req = n" and tl: "map promise rest = [Suc n..<nextPromise s]"
      and lt: "n < nextPromise s"
      using upt_eq_Cons_conv[of n "nextPromise s" "promise req" "map promise rest"] by auto
    show ?thesis
    proof (cases "processMessage_begin (s\<lparr>processingQueue := rest\<rparr>) (sessionId req) (message req) tUser")
      case (Inl err)
      then have err: "err = SessionNotFound (sessionId req)"
        by (rule processMessage_begin_Inl)
      have "laneInv (drainLoop (s\<lparr>processingQueue := rest,
                            effects := effects s @ [Reject (promise req) err]\<rparr>) tUser)"
        using "1.IH"(1)[OF Cons Inl, of "Suc n"] "1.prems" hd tl lt err
        by (simp add: serialLog_snoc)
      then show ?thesis using Cons Inl by (subst drainLoop.simps) simp
    next
      case (Inr p)
      obtain a s1 where p: "p = (a, s1)" by (cases p)
      from Inr p have s1: "s1 = s\<lparr>processingQueue := rest,
            heap := (heap s)(a := (heap s a)\<lparr>history := history (heap s a) @
                  [\<lparr>role = ''user'', content = message req, timestamp = tUser\<rparr>]\<rparr>),
            effects := effects s @
                  [PromptCall (session (heap s a)) (reinforcedMessage (systemRole s) (message req))]\<rparr>"
        by (auto dest!: processMessage_begin_Inr)
      have "drainLoop s tUser = s1\<lparr>awaiting := awaiting s1 @ [(req, a)]\<rparr>"
        using Cons Inr p by (subst drainLoop.simps) simp
      then show ?thesis using "1.prems" hd tl lt s1
        by (simp add: laneInv_def serialLog_snoc upt_conv_Cons)
    qed
  qed
qed


lemma laneInv_constructor: "laneInv (constructor envRole)"
  by (simp add: laneInv_def constructor_def serialLog_def)

lemma laneInv_initialize: "laneInv s \<Longrightarrow> laneInv (snd (initialize s loaded))"
  by (auto simp: laneInv_def initialize_def split: option.splits)

lemma laneInv_createSession:
  "laneInv s \<Longrightarrow> laneInv (snd (createSession s sidArg uuid created tc ta))"
  by (auto simp: laneInv_def createSession_def createSession_begin_def createSession_resume_def Let_def split: sum.splits)

lemma laneInv_updateSystemRole: "laneInv s \<Longrightarrow> laneInv (snd (updateSystemRole s newRole))"
  by (auto simp: laneInv_def updateSystemRole_def split: json.splits)

lemma laneInv_deleteSession: "laneInv s \<Longrightarrow> laneInv (snd (deleteSession s sid disposal))"
  by (auto simp: laneInv_def deleteSession_def deleteSession_begin_def deleteSession_resume_def serialLog_snoc split: option.splits)

lemma laneInv_deleteEach: "laneInv s \<Longrightarrow> laneInv (deleteEach s ids disposal)"
  by (induction ids arbitrary: s) (simp_all add: laneInv_deleteSession)

lemma laneInv_cleanup:
  "laneInv s \<Longrightarrow> laneInv (snd (cleanupInactiveSessions s maxAge now disposal))"
  by (simp add: cleanupInactiveSessions_def Let_def laneInv_deleteEach)

lemma laneInv_sendMessage:
  assumes "laneInv s"
  shows "laneInv (snd (sendMessage s sid msg now tUser))"
proof (cases "map_of (sessions s) sid = None")
  case True
  with assms show ?thesis by (simp add: sendMessage_def)
next
  case False
  define req where "req = \<lparr>sessionId = sid, message = msg, promise = nextPromise s, enqueuedAt = now\<rparr>"
  define s1 where "s1 = s\<lparr>processingQueue := processingQueue s @ [req], nextPromise := Suc (nextPromise s)\<rparr>"
  have snd: "snd (sendMessage s sid msg now tUser) = processQueue s1 tUser"
    using False by (auto simp: sendMessage_def s1_def req_def)
  from assms obtain n where n: "n \<le> nextPromise s"
      "serialLog (effects s) = Some (n, awaiting s \<noteq> [])"
      "map promise (map fst (awaiting s) @ processingQueue s) = [n..<nextPromise s]"
    by (auto simp: laneInv_def)
  show ?thesis
  proof (cases "currentlyProcessing s")
    case True
    then have "processQueue s1 tUser = s1" by (simp add: processQueue_def s1_def)
    moreover have "laneInv s1"
      using assms True n by (auto simp: laneInv_def s1_def req_def)
    ultimately show ?thesis using snd by simp
  next
    case False
    with assms have idle: "awaiting s = []" "processingQueue s = []"
      by (auto simp: laneInv_def)
    with n have "[n..<nextPromise s] = []" by simp
    with n(1) have "n = nextPromise s" by auto
    then have "laneInv (drainLoop (s1\<lparr>currentlyProcessing := True\<rparr>) tUser)"
      using idle n by (intro drainLoop_inv[where n = n]) (simp_all add: s1_def req_def)
    moreover have "processQueue s1 tUser = drainLoop (s1\<lparr>currentlyProcessing := True\<rparr>) tUser"
      using False by (simp add: processQueue_def s1_def)
    ultimately show ?thesis using snd by simp
  qed
qed

lemma laneInv_promptSettled:
  assumes "laneInv s"
  shows "laneInv (promptSettled s k outcome tA tL tUser)"
proof (cases "length (awaiting s) \<le> k")
  case True
  with assms show ?thesis by (simp add: promptSettled_def)
next
  case False
  with assms obtain req a where aw: "awaiting s = [(req, a)]" and k: "k = 0"
    by (cases "awaiting s") (auto simp: laneInv_def)
  from assms aw obtain n where n0: "serialLog (effects s) = Some (n, True)"
      "promise req # map promise (processingQueue s) = [n..<nextPromise s]"
    by (auto simp: laneInv_def)
  from n0(2) have n1: "promise req = n" "map promise (processingQueue s) = [Suc n..<nextPromise s]"
      "n < nextPromise s"
    using upt_eq_Cons_conv[of n "nextPromise s" "promise req" "map promise (processingQueue s)"]
    by auto
  note n = n0(1) n1
  from assms aw have cp: "currentlyProcessing s" by (simp add: laneInv_def)
  show ?thesis
  proof (cases outcome)
    case (Inl failure)
    have "promptSettled s k outcome tA tL tUser =
        drainLoop (s\<lparr>awaiting := [], effects := effects s @ [Reject n (ProcessMessageFailed failure)]\<rparr>) tUser"
      using aw k Inl n by (simp add: promptSettled_def processMessage_resume_def)
    moreover have "laneInv \<dots>"
      using n cp by (intro drainLoop_inv[where n = "Suc n"]) (simp_all add: serialLog_snoc)
    ultimately show ?thesis by simp
  next
    case (Inr raw)
    have "promptSettled s k outcome tA tL tUser =
        drainLoop (s\<lparr>awaiting := [],
           heap := (heap s)(a := (heap s a)\<lparr>history := history (heap s a) @
                    [\<lparr>role = ''assistant'', content = trim raw, timestamp = tA\<rparr>],
                  lastActivity := tL\<rparr>),
           effects := effects s @ [Resolve n (trim raw)]\<rparr>) tUser"
      using aw k Inr n by (simp add: promptSettled_def processMessage_resume_def Let_def)
    moreover have "laneInv \<dots>"
      using n cp by (intro drainLoop_inv[where n = "Suc n"]) (simp_all add: serialLog_snoc)
    ultimately show ?thesis by simp
  qed
qed

lemma laneInv_halves:
  "laneInv s \<Longrightarrow> laneInv (s\<lparr>creating := cs\<rparr>)"
  "laneInv s \<Longrightarrow> laneInv (s\<lparr>disposing := ds\<rparr>)"
  "laneInv s \<Longrightarrow> laneInv (snd (createSession_resume s newId created tc ta))"
  "laneInv s \<Longrightarrow> deleteSession_begin s sid = Inr s1 \<Longrightarrow> laneInv s1"
  "laneInv s \<Longrightarrow> laneInv (snd (deleteSession_resume s sid disposal))"
  by (auto simp: laneInv_def createSession_resume_def deleteSession_begin_def
      deleteSession_resume_def serialLog_snoc split: sum.splits option.splits)

lemma laneInv_step: "laneInv s \<Longrightarrow> laneInv (step s e)"
  by (cases e)
    (auto simp: laneInv_initialize laneInv_createSession laneInv_sendMessage
       laneInv_promptSettled laneInv_deleteSession laneInv_updateSystemRole laneInv_cleanup
       laneInv_halves split: sum.splits)

lemma laneInv_run: "laneInv s \<Longrightarrow> laneInv (run s evs)"
  unfolding run_def by (induction evs arbitrary: s) (simp_all add: laneInv_step)







lemma drainLoop_turn:
  "awaiting s = [] \<Longrightarrow> \<forall>(sid, a) \<in> set (sessions s). a < nextAddr s \<Longrightarrow>
   turnInv (drainLoop s t)"
proof (induction s t rule: drainLoop.induct)
  case (1 s tUser)
  show ?case
  proof (cases "processingQueue s")
    case Nil
    with "1.prems" show ?thesis by (simp add: drainLoop_empty turnInv_def)
  next
    case (Cons req rest)
    show ?thesis
    proof (cases "map_of (sessions s) (sessionId req)")
      case None
      then have "processMessage_begin (s\<lparr>processingQueue := rest\<rparr>) (sessionId req) (message req) tUser
          = Inl (SessionNotFound (sessionId req))"
        by (simp add: processMessage_begin_def)
      from "1.IH"[OF Cons this] "1.prems" show ?thesis
        by (simp add: drainLoop_missing[OF Cons None])
    next
      case (Some a)
      then have "(sessionId req, a) \<in> set (sessions s)" by (rule map_of_SomeD)
      with "1.prems" have "a < nextAddr s" by auto
      with "1.prems" show ?thesis
        by (simp add: drainLoop_live[OF Cons Some] turnInv_def)
    qed
  qed
qed

lemma turnInv_constructor: "turnInv (constructor envRole)"
  by (simp add: turnInv_def constructor_def)

lemma set_update_subset: "set (AList.update k v al) \<subseteq> insert (k, v) (set al)"
  by (induction al) auto

lemma set_delete_subset: "set (AList.delete k al) \<subseteq> set al"
  by (auto simp: AList.delete_eq)

lemma turnInv_createSession_resume:
  "turnInv s \<Longrightarrow> turnInv (snd (createSession_resume s newId created tc ta))"
proof (cases created)
  case (Inl msg)
  assume "turnInv s"
  with Inl show ?thesis by (simp add: createSession_resume_def)
next
  case (Inr c)
  assume inv: "turnInv s"
  have "set (AList.update newId (nextAddr s) (sessions s))
      \<subseteq> insert (newId, nextAddr s) (set (sessions s))"
    by (rule set_update_subset)
  with inv Inr show ?thesis
    by (fastforce simp: turnInv_def createSession_resume_def)
qed

lemma turnInv_createSession:
  "turnInv s \<Longrightarrow> turnInv (snd (createSession s arg uuid created tc ta))"
  by (simp add: createSession_def turnInv_createSession_resume split: sum.splits)

lemma turnInv_deleteSession_begin:
  "turnInv s \<Longrightarrow> deleteSession_begin s sid = Inr s1 \<Longrightarrow> turnInv s1"
  by (auto simp: turnInv_def deleteSession_begin_def split: option.splits)

lemma turnInv_deleteSession_resume:
  "turnInv s \<Longrightarrow> turnInv (snd (deleteSession_resume s sid disposal))"
  using set_delete_subset[of sid "sessions s"]
  by (cases disposal) (auto simp: turnInv_def deleteSession_resume_def)

lemma turnInv_deleteSession:
  "turnInv s \<Longrightarrow> turnInv (snd (deleteSession s sid disposal))"
  by (auto simp: deleteSession_def turnInv_deleteSession_resume
      dest: turnInv_deleteSession_begin split: sum.splits)

lemma turnInv_deleteEach: "turnInv s \<Longrightarrow> turnInv (deleteEach s ids disposal)"
  by (induction ids arbitrary: s) (simp_all add: turnInv_deleteSession)

lemma turnInv_sendMessage:
  assumes "laneInv s" "turnInv s"
  shows "turnInv (snd (sendMessage s sid msg now tUser))"
proof (cases "map_of (sessions s) sid = None \<or> currentlyProcessing s")
  case True
  with assms(2) show ?thesis
    by (auto simp: sendMessage_def processQueue_def turnInv_def)
next
  case False
  with assms(1) have idle: "awaiting s = []" by (simp add: laneInv_def)
  from False have "snd (sendMessage s sid msg now tUser)
      = drainLoop (s\<lparr>processingQueue := processingQueue s @
                    [\<lparr>sessionId = sid, message = msg, promise = nextPromise s,
                      enqueuedAt = now\<rparr>],
                 nextPromise := Suc (nextPromise s), currentlyProcessing := True\<rparr>) tUser"
    by (auto simp: sendMessage_def processQueue_def)
  moreover have "turnInv \<dots>"
    using idle assms(2) by (intro drainLoop_turn) (simp_all add: turnInv_def)
  ultimately show ?thesis by simp
qed

lemma turnInv_promptSettled:
  assumes "laneInv s" "turnInv s"
  shows "turnInv (promptSettled s k outcome tA tL tUser)"
proof (cases "length (awaiting s) \<le> k")
  case True
  with assms(2) show ?thesis by (simp add: promptSettled_def)
next
  case False
  with assms(1) obtain req a where aw: "awaiting s = [(req, a)]" and k: "k = 0"
    by (cases "awaiting s") (auto simp: laneInv_def)
  obtain r s2 where res: "processMessage_resume (s\<lparr>awaiting := []\<rparr>) a outcome tA tL = (r, s2)"
    by (cases "processMessage_resume (s\<lparr>awaiting := []\<rparr>) a outcome tA tL")
  then have s2: "awaiting s2 = []" "sessions s2 = sessions s" "nextAddr s2 = nextAddr s"
    by (auto simp: processMessage_resume_def Let_def split: sum.splits)
  have "promptSettled s k outcome tA tL tUser
      = drainLoop (s2\<lparr>effects := effects s2 @
          [case r of Inr response \<Rightarrow> Resolve (promise req) response
                   | Inl err \<Rightarrow> Reject (promise req) err]\<rparr>) tUser"
    using aw k res by (simp add: promptSettled_def split: sum.splits)
  moreover have "turnInv \<dots>"
    using s2 assms(2) by (intro drainLoop_turn) (simp_all add: turnInv_def)
  ultimately show ?thesis by simp
qed

lemma turnInv_step: "laneInv s \<Longrightarrow> turnInv s \<Longrightarrow> turnInv (step s e)"
proof (cases e)
  case (Initialize loaded)
  assume "turnInv s"
  with Initialize show ?thesis by (simp add: initialize_def turnInv_def split: option.splits)
next
  case (UpdateSystemRole newRole)
  assume "turnInv s"
  with UpdateSystemRole show ?thesis
    by (cases newRole) (simp_all add: updateSystemRole_def turnInv_def)
next
  case (CleanupInactiveSessions maxAge now disposal)
  assume "turnInv s"
  with CleanupInactiveSessions show ?thesis
    by (simp add: cleanupInactiveSessions_def Let_def turnInv_deleteEach)
next
  case (CreateSessionBegin arg uuid)
  assume "turnInv s"
  with CreateSessionBegin show ?thesis by (simp add: turnInv_def split: sum.splits)
next
  case (ContextSettled k created tc ta)
  assume "turnInv s"
  then have "turnInv (s\<lparr>creating := take k (creating s) @ drop (Suc k) (creating s)\<rparr>)"
    by (simp add: turnInv_def)
  with ContextSettled \<open>turnInv s\<close> show ?thesis
    by (simp add: turnInv_createSession_resume)
next
  case (DeleteSessionBegin sid)
  assume "turnInv s"
  with DeleteSessionBegin show ?thesis
    by (auto simp: turnInv_def deleteSession_begin_def split: option.splits)
next
  case (DisposeSettled k disposal)
  assume "turnInv s"
  then have "turnInv (s\<lparr>disposing := take k (disposing s) @ drop (Suc k) (disposing s)\<rparr>)"
    by (simp add: turnInv_def)
  with DisposeSettled \<open>turnInv s\<close> show ?thesis
    by (simp add: turnInv_deleteSession_resume)
qed (simp_all add: turnInv_createSession turnInv_deleteSession turnInv_sendMessage
      turnInv_promptSettled)

lemma invs_run: "laneInv s \<Longrightarrow> turnInv s \<Longrightarrow> laneInv (run s evs) \<and> turnInv (run s evs)"
  unfolding run_def by (induction evs arbitrary: s) (simp_all add: laneInv_step turnInv_step)




subsection \<open>One prompt at a time\<close>

text \<open>
  Claim C9. After any run of jobs from the constructor (calls of \<^verbatim>\<open>sendMessage\<close> from any
  sessions, settlements of prompts, and the other calls and resumptions, in any order), at
  most one drain
  is suspended on a prompt, the flag \<open>currentlyProcessing\<close> is set exactly when one is, and
  the effects never show a prompt called while another is in flight.
\<close>

theorem one_prompt_in_flight:
  "length (awaiting (run (constructor envRole) evs)) \<le> 1
   \<and> currentlyProcessing (run (constructor envRole) evs)
       = (awaiting (run (constructor envRole) evs) \<noteq> [])
   \<and> serialLog (effects (run (constructor envRole) evs)) \<noteq> None"
proof -
  have "laneInv (run (constructor envRole) evs)"
    by (intro laneInv_run laneInv_constructor)
  then show ?thesis unfolding laneInv_def by auto
qed

theorem one_prompt_in_flight_witness:
  "length (awaiting (run (constructor None) (take 7 day))) \<le> 1
   \<and> currentlyProcessing (run (constructor None) (take 7 day))
   \<and> map (message \<circ> fst) (awaiting (run (constructor None) (take 7 day))) = [''a'']
   \<and> map message (processingQueue (run (constructor None) (take 7 day))) = [''b'', ''c'']"
proof -
  have "map (message \<circ> fst) (awaiting (run (constructor None) (take 7 day))) = [''a'']
      \<and> map message (processingQueue (run (constructor None) (take 7 day))) = [''b'', ''c'']"
    by (simp add: day_def run_def constructor_def initialize_def createSession_def createSession_begin_def createSession_resume_def Let_def
      sendMessage_def processQueue_def drainLoop_live)
  with one_prompt_in_flight[of None "take 7 day"] show ?thesis
    by auto
qed

subsection \<open>A request whose session is gone\<close>




subsection \<open>The message of a request\<close>

lemma drainLoop_requests:
  "set (map fst (awaiting (drainLoop s t)) @ processingQueue (drainLoop s t))
     \<subseteq> set (map fst (awaiting s) @ processingQueue s)"
proof (induction s t rule: drainLoop.induct)
  case (1 s tUser)
  show ?case
  proof (cases "processingQueue s")
    case Nil
    then show ?thesis by (simp add: drainLoop_empty)
  next
    case (Cons req rest)
    show ?thesis
    proof (cases "map_of (sessions s) (sessionId req)")
      case None
      then have "processMessage_begin (s\<lparr>processingQueue := rest\<rparr>) (sessionId req) (message req) tUser
          = Inl (SessionNotFound (sessionId req))"
        by (simp add: processMessage_begin_def)
      from "1.IH"[OF Cons this] show ?thesis
        using Cons by (auto simp: drainLoop_missing[OF Cons None])
    next
      case (Some a)
      show ?thesis
        using Cons by (auto simp: drainLoop_live[OF Cons Some])
    qed
  qed
qed

lemma nonEmptyMessages_drainLoop:
  "nonEmptyMessages s \<Longrightarrow> nonEmptyMessages (drainLoop s t)"
  using drainLoop_requests[of s t] unfolding nonEmptyMessages_def list_all_iff by blast

lemma nonEmptyMessages_deleteEach:
  "nonEmptyMessages (deleteEach s ids disposal) = nonEmptyMessages s"
proof (induction ids arbitrary: s)
  case Nil
  then show ?case by simp
next
  case (Cons sid ids)
  have "nonEmptyMessages (snd (deleteSession s sid (disposal sid))) = nonEmptyMessages s"
    by (simp add: nonEmptyMessages_def deleteSession_def deleteSession_begin_def
        deleteSession_resume_def split: option.splits)
  with Cons[of "snd (deleteSession s sid (disposal sid))"] show ?case
    by simp
qed

lemma nonEmptyMessages_sendMessage:
  assumes "nonEmptyMessages s" "msg \<noteq> []"
  shows "nonEmptyMessages (snd (sendMessage s sid msg now tUser))"
proof (cases "map_of (sessions s) sid = None \<or> currentlyProcessing s")
  case True
  with assms show ?thesis
    by (auto simp: sendMessage_def processQueue_def nonEmptyMessages_def)
next
  case False
  have "nonEmptyMessages (s\<lparr>processingQueue := processingQueue s @
                    [\<lparr>sessionId = sid, message = msg, promise = nextPromise s,
                      enqueuedAt = now\<rparr>],
                 nextPromise := Suc (nextPromise s), currentlyProcessing := True\<rparr>)"
    using assms by (simp add: nonEmptyMessages_def)
  from nonEmptyMessages_drainLoop[OF this, of tUser] False show ?thesis
    by (auto simp: sendMessage_def processQueue_def)
qed

lemma nonEmptyMessages_promptSettled:
  assumes "nonEmptyMessages s"
  shows "nonEmptyMessages (promptSettled s k outcome tA tL tUser)"
proof (cases "length (awaiting s) \<le> k")
  case True
  with assms show ?thesis by (simp add: promptSettled_def)
next
  case False
  have sub: "set (take k (awaiting s) @ drop (Suc k) (awaiting s)) \<subseteq> set (awaiting s)"
    by (auto dest: in_set_takeD in_set_dropD)
  have rest: "list_all (\<lambda>r. message r \<noteq> [])
      (map fst (take k (awaiting s) @ drop (Suc k) (awaiting s)) @ processingQueue s)"
    using assms sub unfolding nonEmptyMessages_def list_all_iff by auto
  show ?thesis
  proof (cases outcome)
    case (Inl failure)
    have "nonEmptyMessages (s\<lparr>awaiting := take k (awaiting s) @ drop (Suc k) (awaiting s),
              effects := effects s @
                [Reject (promise (fst (awaiting s ! k))) (ProcessMessageFailed failure)]\<rparr>)"
      using rest by (simp add: nonEmptyMessages_def)
    from nonEmptyMessages_drainLoop[OF this, of tUser] Inl False show ?thesis
      by (simp add: promptSettled_def processMessage_resume_def Let_def)
  next
    case (Inr raw)
    have "nonEmptyMessages (s\<lparr>awaiting := take k (awaiting s) @ drop (Suc k) (awaiting s),
              heap := (heap s)(snd (awaiting s ! k) := (heap s (snd (awaiting s ! k)))
                 \<lparr>history := history (heap s (snd (awaiting s ! k))) @
                    [\<lparr>role = ''assistant'', content = trim raw, timestamp = tA\<rparr>],
                  lastActivity := tL\<rparr>),
              effects := effects s @
                [Resolve (promise (fst (awaiting s ! k))) (trim raw)]\<rparr>)"
      using rest by (simp add: nonEmptyMessages_def)
    from nonEmptyMessages_drainLoop[OF this, of tUser] Inr False show ?thesis
      by (simp add: promptSettled_def processMessage_resume_def Let_def)
  qed
qed

lemma nonEmptyMessages_step:
  assumes "nonEmptyMessages s" "\<And>sid msg now t. e \<noteq> SendMessage sid msg now t"
  shows "nonEmptyMessages (step s e)"
proof (cases e)
  case (Initialize loaded)
  with assms show ?thesis by (simp add: nonEmptyMessages_def initialize_def split: option.splits)
next
  case (CreateSession arg uuid created tc ta)
  with assms show ?thesis
    by (simp add: nonEmptyMessages_def createSession_def createSession_begin_def
        createSession_resume_def Let_def split: sum.splits)
next
  case (SendMessage sid msg now tUser)
  with assms(2) show ?thesis by blast
next
  case (PromptSettled k outcome tA tL tUser)
  with assms nonEmptyMessages_promptSettled show ?thesis by simp
next
  case (DeleteSession sid disposal)
  with assms show ?thesis
    by (simp add: nonEmptyMessages_def deleteSession_def deleteSession_begin_def
        deleteSession_resume_def split: option.splits)
next
  case (UpdateSystemRole newRole)
  with assms show ?thesis
    by (cases newRole) (simp_all add: nonEmptyMessages_def updateSystemRole_def)
next
  case (CleanupInactiveSessions maxAge now disposal)
  with assms show ?thesis
    by (simp add: cleanupInactiveSessions_def Let_def nonEmptyMessages_deleteEach)
next
  case (CreateSessionBegin arg uuid)
  with assms show ?thesis by (simp add: nonEmptyMessages_def split: sum.splits)
next
  case (ContextSettled k created tc ta)
  with assms show ?thesis
    by (simp add: nonEmptyMessages_def createSession_resume_def split: sum.splits)
next
  case (DeleteSessionBegin sid)
  with assms show ?thesis
    by (simp add: nonEmptyMessages_def deleteSession_begin_def split: option.splits)
next
  case (DisposeSettled k disposal)
  with assms show ?thesis
    by (simp add: nonEmptyMessages_def deleteSession_resume_def split: option.splits)
qed

text \<open>
  Claim C7. A message is submitted through the handler of
  \<^verbatim>\<open>POST /sessions/:sessionId/messages\<close>, the only caller of \<^verbatim>\<open>sendMessage\<close>. For a body
  that is absent, not a string, or the empty string, the handler answers 400 and the state
  is as it was: nothing is added to the queue and no prompt is called. For a string that
  is not empty and a session that is not live it answers 404 and the state is as it was.
  For a string that is not empty and a live session, the request with that message is put
  at the tail of the queue and the handler waits for its promise: the request stays at the
  tail while a drain is running, and is taken at once, its prompt being called with the
  system role and the message, when none is. So when no request waiting or in flight has
  the empty message, none has after a call of the handler, whatever the body, nor after
  any other job of the server.
\<close>

theorem message_validated_by_route:
  "(falsy body \<or> \<not> typeof_string body \<longrightarrow> postMessage s sid body now tUser = (Status 400, s))
   \<and> postMessage s sid (JStr []) now tUser = (Status 400, s)
   \<and> (msg \<noteq> [] \<and> map_of (sessions s) sid = None \<longrightarrow>
        postMessage s sid (JStr msg) now tUser = (Status 404, s))
   \<and> (msg \<noteq> [] \<and> map_of (sessions s) sid \<noteq> None \<and> currentlyProcessing s \<longrightarrow>
        postMessage s sid (JStr msg) now tUser =
          (Pending (nextPromise s),
           s\<lparr>processingQueue := processingQueue s @
                 [\<lparr>sessionId = sid, message = msg, promise = nextPromise s, enqueuedAt = now\<rparr>],
             nextPromise := Suc (nextPromise s)\<rparr>))
   \<and> (msg \<noteq> [] \<and> map_of (sessions s) sid = Some a \<and> \<not> currentlyProcessing s
        \<and> processingQueue s = [] \<longrightarrow>
        postMessage s sid (JStr msg) now tUser =
          (Pending (nextPromise s),
           s\<lparr>processingQueue := [], nextPromise := Suc (nextPromise s),
             currentlyProcessing := True,
             heap := (heap s)(a := (heap s a)\<lparr>history := history (heap s a) @
                       [\<lparr>role = ''user'', content = msg, timestamp = tUser\<rparr>]\<rparr>),
             effects := effects s @
                       [PromptCall (session (heap s a))
                          (''System: '' @ systemRole s @ [CHR 0x0A, CHR 0x0A] @ ''User: ''
                             @ msg)],
             awaiting := awaiting s @
                 [(\<lparr>sessionId = sid, message = msg, promise = nextPromise s, enqueuedAt = now\<rparr>, a)]\<rparr>))
   \<and> (nonEmptyMessages s \<longrightarrow>
        nonEmptyMessages (snd (postMessage s sid body now tUser))
        \<and> ((\<forall>x m n t. e \<noteq> SendMessage x m n t) \<longrightarrow> nonEmptyMessages (step s e)))"
proof (intro conjI impI)
  assume "falsy body \<or> \<not> typeof_string body"
  then show "postMessage s sid body now tUser = (Status 400, s)"
    by (simp add: postMessage_def)
next
  show "postMessage s sid (JStr []) now tUser = (Status 400, s)"
    by (simp add: postMessage_def)
next
  assume "msg \<noteq> [] \<and> map_of (sessions s) sid = None"
  then show "postMessage s sid (JStr msg) now tUser = (Status 404, s)"
    by (simp add: postMessage_def sendMessage_def)
next
  assume "msg \<noteq> [] \<and> map_of (sessions s) sid \<noteq> None \<and> currentlyProcessing s"
  then show "postMessage s sid (JStr msg) now tUser =
          (Pending (nextPromise s),
           s\<lparr>processingQueue := processingQueue s @
                 [\<lparr>sessionId = sid, message = msg, promise = nextPromise s, enqueuedAt = now\<rparr>],
             nextPromise := Suc (nextPromise s)\<rparr>)"
    by (auto simp: postMessage_def sendMessage_def processQueue_def)
next
  assume "msg \<noteq> [] \<and> map_of (sessions s) sid = Some a \<and> \<not> currentlyProcessing s
        \<and> processingQueue s = []"
  then show "postMessage s sid (JStr msg) now tUser =
          (Pending (nextPromise s),
           s\<lparr>processingQueue := [], nextPromise := Suc (nextPromise s),
             currentlyProcessing := True,
             heap := (heap s)(a := (heap s a)\<lparr>history := history (heap s a) @
                       [\<lparr>role = ''user'', content = msg, timestamp = tUser\<rparr>]\<rparr>),
             effects := effects s @
                       [PromptCall (session (heap s a))
                          (''System: '' @ systemRole s @ [CHR 0x0A, CHR 0x0A] @ ''User: ''
                             @ msg)],
             awaiting := awaiting s @
                 [(\<lparr>sessionId = sid, message = msg, promise = nextPromise s, enqueuedAt = now\<rparr>, a)]\<rparr>)"
    by (simp add: postMessage_def sendMessage_def processQueue_def drainLoop_live
        reinforcedMessage_def)
next
  assume inv: "nonEmptyMessages s"
  show "nonEmptyMessages (snd (postMessage s sid body now tUser))"
  proof (cases "falsy body \<or> \<not> typeof_string body")
    case True
    with inv show ?thesis by (simp add: postMessage_def)
  next
    case False
    then obtain m where m: "body = JStr m" "m \<noteq> []"
      by (cases body) auto
    have "snd (postMessage s sid (JStr m) now tUser) = snd (sendMessage s sid m now tUser)"
      using m by (simp add: postMessage_def split: prod.splits sum.splits error.splits)
    with nonEmptyMessages_sendMessage[OF inv m(2), of sid now tUser] m show ?thesis
      by simp
  qed
next
  assume "nonEmptyMessages s" "\<forall>x m n t. e \<noteq> SendMessage x m n t"
  then show "nonEmptyMessages (step s e)"
    by (intro nonEmptyMessages_step) simp_all
qed

theorem message_validated_by_route_witness:
  "postMessage busy ''s2'' JUndefined 6000 6001 = (Status 400, busy)
   \<and> postMessage busy ''s2'' (JStr []) 6000 6001 = (Status 400, busy)
   \<and> postMessage busy ''s3'' (JStr ''bonjour'') 6000 6001 = (Status 404, busy)
   \<and> fst (postMessage busy ''s2'' (JStr ''bonjour'') 6000 6001) = Pending 1
   \<and> processingQueue (snd (postMessage busy ''s2'' (JStr ''bonjour'') 6000 6001)) =
       [\<lparr>sessionId = ''s2'', message = ''bonjour'', promise = 1, enqueuedAt = 6000\<rparr>]
   \<and> awaiting (snd (postMessage twoSessions ''s1'' (JStr ''hello'') 5000 5001)) =
       [(\<lparr>sessionId = ''s1'', message = ''hello'', promise = 0, enqueuedAt = 5000\<rparr>, 0)]
   \<and> effects (snd (postMessage twoSessions ''s1'' (JStr ''hello'') 5000 5001)) =
       [PromptCall \<lparr>contextSequence = 1, systemPrompt = ''You are a helpful assistant.''\<rparr>
          (''System: You are a helpful assistant.'' @ [CHR 0x0A, CHR 0x0A] @ ''User: hello'')]
   \<and> nonEmptyMessages busy
   \<and> nonEmptyMessages (snd (postMessage busy ''s2'' (JStr []) 6000 6001))
   \<and> nonEmptyMessages (step busy (PromptSettled 0 (Inr ''hi'') 7000 7001 7002))"
proof -
  have bad: "falsy JUndefined \<or> \<not> typeof_string JUndefined"
    and live: "''bonjour'' \<noteq> [] \<and> map_of (sessions busy) ''s2'' \<noteq> None \<and> currentlyProcessing busy"
    and gone: "''bonjour'' \<noteq> [] \<and> map_of (sessions busy) ''s3'' = None"
    and idle: "''hello'' \<noteq> [] \<and> map_of (sessions twoSessions) ''s1'' = Some 0
        \<and> \<not> currentlyProcessing twoSessions \<and> processingQueue twoSessions = []"
    and inv: "nonEmptyMessages busy"
    and other: "\<forall>x m n t. PromptSettled 0 (Inr ''hi'') 7000 7001 7002 \<noteq> SendMessage x m n t"
    by (simp_all add: busy_fields twoSessions_fields nonEmptyMessages_def)
  from message_validated_by_route[where body = JUndefined and s = busy and sid = "''s2''"
        and now = 6000 and tUser = 6001 and msg = "''bonjour''"] bad live
  have a: "postMessage busy ''s2'' JUndefined 6000 6001 = (Status 400, busy)"
    "postMessage busy ''s2'' (JStr []) 6000 6001 = (Status 400, busy)"
    "postMessage busy ''s2'' (JStr ''bonjour'') 6000 6001 =
          (Pending (nextPromise busy),
           busy\<lparr>processingQueue := processingQueue busy @
                 [\<lparr>sessionId = ''s2'', message = ''bonjour'', promise = nextPromise busy,
                   enqueuedAt = 6000\<rparr>],
             nextPromise := Suc (nextPromise busy)\<rparr>)"
    by blast+
  from message_validated_by_route[where s = busy and sid = "''s3''"
        and now = 6000 and tUser = 6001 and msg = "''bonjour''"] gone
  have b: "postMessage busy ''s3'' (JStr ''bonjour'') 6000 6001 = (Status 404, busy)"
    by blast
  from message_validated_by_route[where s = twoSessions and sid = "''s1''" and a = 0
        and now = 5000 and tUser = 5001 and msg = "''hello''"] idle
  have c: "postMessage twoSessions ''s1'' (JStr ''hello'') 5000 5001 =
          (Pending (nextPromise twoSessions),
           twoSessions\<lparr>processingQueue := [], nextPromise := Suc (nextPromise twoSessions),
             currentlyProcessing := True,
             heap := (heap twoSessions)(0 := (heap twoSessions 0)\<lparr>history := history (heap twoSessions 0) @
                       [\<lparr>role = ''user'', content = ''hello'', timestamp = 5001\<rparr>]\<rparr>),
             effects := effects twoSessions @
                       [PromptCall (session (heap twoSessions 0))
                          (''System: '' @ systemRole twoSessions @ [CHR 0x0A, CHR 0x0A] @ ''User: ''
                             @ ''hello'')],
             awaiting := awaiting twoSessions @
                 [(\<lparr>sessionId = ''s1'', message = ''hello'', promise = nextPromise twoSessions,
                    enqueuedAt = 5000\<rparr>, 0)]\<rparr>)"
    by blast
  from message_validated_by_route[where s = busy and sid = "''s2''" and body = "JStr []"
        and now = 6000 and tUser = 6001
        and e = "PromptSettled 0 (Inr ''hi'') 7000 7001 7002"] inv other
  have d: "nonEmptyMessages (snd (postMessage busy ''s2'' (JStr []) 6000 6001))"
    "nonEmptyMessages (step busy (PromptSettled 0 (Inr ''hi'') 7000 7001 7002))"
    by blast+
  from a b c d inv show ?thesis
    by (simp add: busy_fields twoSessions_fields)
qed

subsection \<open>Creating a session\<close>

text \<open>
  Claim C6, as the code has it. A call of \<^verbatim>\<open>createSession\<close> with a non-empty id that is
  live when the call is made fails at one of its three tests, before any engine call, and
  leaves the state as it was: with \<^verbatim>\<open>Session ... already exists\<close> when the two earlier
  tests pass (the model is initialised and the map is below the ceiling), with the error of
  the earlier test that fails otherwise. A call that passes the three tests goes on with
  the id supplied, or the generated one when none or the empty string was supplied, and
  that id is not live then; when nothing else runs during its \<^verbatim>\<open>await\<close> it is the call
  resumed in the state it was made in. A call that passed its tests and is resumed, in
  whatever state the jobs run meanwhile have left, fails with \<^verbatim>\<open>Failed to create session\<close>
  and no change when the engine gave no context; otherwise it returns its id, which is now
  bound to a new object holding the context the engine returned, a chat session on that
  context with the system role of that moment, an empty history, \<open>createdAt\<close> at the first
  clock read and \<open>lastActivity\<close> at the second; the entries of the other ids and the other
  objects are untouched. After any run of jobs from the constructor, the object that a
  creation would allocate is none of those of the sessions of the map or of the requests
  in flight.
\<close>

theorem createSession_outcome:
  "(x \<noteq> [] \<and> map_of (sessions s) x \<noteq> None \<longrightarrow>
      (\<exists>e. createSession_begin s (Some x) uuid = Inl e
            \<and> createSession s (Some x) uuid created tCreated tActivity = (Inl e, s))
      \<and> (isInitialized s \<and> length (sessions s) < maxConcurrentSessions s \<longrightarrow>
           createSession s (Some x) uuid created tCreated tActivity = (Inl (SessionExists x), s))
      \<and> (isInitialized s \<and> maxConcurrentSessions s \<le> length (sessions s) \<longrightarrow>
           createSession s (Some x) uuid created tCreated tActivity
             = (Inl (MaxSessionsReached (maxConcurrentSessions s)), s))
      \<and> (\<not> isInitialized s \<longrightarrow>
           createSession s (Some x) uuid created tCreated tActivity = (Inl ModelNotInitialized, s)))
   \<and> (createSession_begin s arg uuid = Inr newId \<longrightarrow>
        newId = (case arg of None \<Rightarrow> uuid | Some x \<Rightarrow> if x = [] then uuid else x)
        \<and> map_of (sessions s) newId = None
        \<and> createSession s arg uuid created tCreated tActivity
            = createSession_resume s newId created tCreated tActivity)
   \<and> (isInitialized s \<and> length (sessions s) < maxConcurrentSessions s
        \<and> map_of (sessions s) (case arg of None \<Rightarrow> uuid | Some x \<Rightarrow> if x = [] then uuid else x) = None
        \<longrightarrow> createSession_begin s arg uuid = Inr (case arg of None \<Rightarrow> uuid | Some x \<Rightarrow> if x = [] then uuid else x))
   \<and> createSession_resume s' newId (Inl failure) tCreated tActivity
        = (Inl (CreateSessionFailed failure), s')
   \<and> fst (createSession_resume s' newId (Inr c) tCreated tActivity) = Inr newId
   \<and> map_of (sessions (snd (createSession_resume s' newId (Inr c) tCreated tActivity))) newId
        = Some (nextAddr s')
   \<and> heap (snd (createSession_resume s' newId (Inr c) tCreated tActivity)) (nextAddr s') =
        \<lparr>session = \<lparr>contextSequence = c, systemPrompt = systemRole s'\<rparr>,
         contextOf = c, history = [], createdAt = tCreated, lastActivity = tActivity,
         systemRoleSet = True\<rparr>
   \<and> (\<forall>other. other \<noteq> newId \<longrightarrow>
         map_of (sessions (snd (createSession_resume s' newId (Inr c) tCreated tActivity))) other
           = map_of (sessions s') other)
   \<and> (\<forall>a. a \<noteq> nextAddr s' \<longrightarrow>
         heap (snd (createSession_resume s' newId (Inr c) tCreated tActivity)) a = heap s' a)
   \<and> (\<forall>(sid, a) \<in> set (sessions (run (constructor envRole) evs)).
         a \<noteq> nextAddr (run (constructor envRole) evs))
   \<and> (\<forall>(req, a) \<in> set (awaiting (run (constructor envRole) evs)).
         a \<noteq> nextAddr (run (constructor envRole) evs))"
proof -
  have dup: "x \<noteq> [] \<and> map_of (sessions s) x \<noteq> None \<longrightarrow>
      (\<exists>e. createSession_begin s (Some x) uuid = Inl e
            \<and> createSession s (Some x) uuid created tCreated tActivity = (Inl e, s))
      \<and> (isInitialized s \<and> length (sessions s) < maxConcurrentSessions s \<longrightarrow>
           createSession s (Some x) uuid created tCreated tActivity = (Inl (SessionExists x), s))
      \<and> (isInitialized s \<and> maxConcurrentSessions s \<le> length (sessions s) \<longrightarrow>
           createSession s (Some x) uuid created tCreated tActivity
             = (Inl (MaxSessionsReached (maxConcurrentSessions s)), s))
      \<and> (\<not> isInitialized s \<longrightarrow>
           createSession s (Some x) uuid created tCreated tActivity = (Inl ModelNotInitialized, s))"
    by (auto simp: createSession_def createSession_begin_def Let_def)
  have passed: "createSession_begin s arg uuid = Inr newId \<longrightarrow>
        newId = (case arg of None \<Rightarrow> uuid | Some x \<Rightarrow> if x = [] then uuid else x)
        \<and> map_of (sessions s) newId = None
        \<and> createSession s arg uuid created tCreated tActivity
            = createSession_resume s newId created tCreated tActivity"
    by (auto simp: createSession_def createSession_begin_def Let_def split: if_splits)
  have passes: "isInitialized s \<and> length (sessions s) < maxConcurrentSessions s
        \<and> map_of (sessions s) (case arg of None \<Rightarrow> uuid | Some x \<Rightarrow> if x = [] then uuid else x) = None
        \<longrightarrow> createSession_begin s arg uuid = Inr (case arg of None \<Rightarrow> uuid | Some x \<Rightarrow> if x = [] then uuid else x)"
    by (auto simp: createSession_begin_def Let_def)
  have failed: "createSession_resume s' newId (Inl failure) tCreated tActivity
        = (Inl (CreateSessionFailed failure), s')"
    by (simp add: createSession_resume_def)
  have returned: "fst (createSession_resume s' newId (Inr c) tCreated tActivity) = Inr newId"
    by (simp add: createSession_resume_def)
  have bound: "map_of (sessions (snd (createSession_resume s' newId (Inr c) tCreated tActivity))) newId
        = Some (nextAddr s')"
    by (simp add: createSession_resume_def update_conv')
  have object: "heap (snd (createSession_resume s' newId (Inr c) tCreated tActivity)) (nextAddr s') =
        \<lparr>session = \<lparr>contextSequence = c, systemPrompt = systemRole s'\<rparr>,
         contextOf = c, history = [], createdAt = tCreated, lastActivity = tActivity,
         systemRoleSet = True\<rparr>"
    by (simp add: createSession_resume_def)
  have others: "\<forall>other. other \<noteq> newId \<longrightarrow>
         map_of (sessions (snd (createSession_resume s' newId (Inr c) tCreated tActivity))) other
           = map_of (sessions s') other"
    by (simp add: createSession_resume_def update_conv')
  have objects: "\<forall>a. a \<noteq> nextAddr s' \<longrightarrow>
         heap (snd (createSession_resume s' newId (Inr c) tCreated tActivity)) a = heap s' a"
    by (simp add: createSession_resume_def)
  have "turnInv (run (constructor envRole) evs)"
    using invs_run[OF laneInv_constructor turnInv_constructor] by blast
  then have fresh: "\<forall>(sid, a) \<in> set (sessions (run (constructor envRole) evs)).
         a \<noteq> nextAddr (run (constructor envRole) evs)"
    and fresh': "\<forall>(req, a) \<in> set (awaiting (run (constructor envRole) evs)).
         a \<noteq> nextAddr (run (constructor envRole) evs)"
    unfolding turnInv_def by fastforce+
  from dup passed passes failed returned bound object others objects fresh fresh'
  show ?thesis
    by (intro conjI)
qed

theorem createSession_outcome_witness:
  "createSession twoSessions (Some ''s2'') ''u3'' (Inr 3) 3000 3001
      = (Inl (SessionExists ''s2''), twoSessions)
   \<and> createSession_begin twoSessions None ''u3'' = Inr ''u3''
   \<and> createSession twoSessions None ''u3'' (Inr 3) 3000 3001
      = createSession_resume twoSessions ''u3'' (Inr 3) 3000 3001
   \<and> fst (createSession_resume twoSessions ''u3'' (Inr 3) 3000 3001) = Inr ''u3''
   \<and> map_of (sessions (snd (createSession_resume twoSessions ''u3'' (Inr 3) 3000 3001))) ''u3''
      = Some 2
   \<and> heap (snd (createSession_resume twoSessions ''u3'' (Inr 3) 3000 3001)) 2 =
        \<lparr>session = \<lparr>contextSequence = 3, systemPrompt = ''You are a helpful assistant.''\<rparr>,
         contextOf = 3, history = [], createdAt = 3000, lastActivity = 3001,
         systemRoleSet = True\<rparr>
   \<and> map_of (sessions (snd (createSession_resume twoSessions ''u3'' (Inr 3) 3000 3001))) ''s1''
      = Some 0
   \<and> heap (snd (createSession_resume twoSessions ''u3'' (Inr 3) 3000 3001)) 0
      = heap twoSessions 0
   \<and> (0::nat) \<noteq> nextAddr (run (constructor None) (take 5 day))"
proof -
  have dup: "''s2'' \<noteq> [] \<and> map_of (sessions twoSessions) ''s2'' \<noteq> None"
    and room: "isInitialized twoSessions
      \<and> length (sessions twoSessions) < maxConcurrentSessions twoSessions"
    and chosen: "map_of (sessions twoSessions) ''u3'' = None"
    and other: "''s1'' \<noteq> ''u3''" "(0::nat) \<noteq> nextAddr twoSessions"
    by (simp_all add: twoSessions_fields)
  have reached: "(''s1'', 0) \<in> set (sessions (run (constructor None) (take 5 day)))"
    by (simp add: day_def run_def constructor_def initialize_def createSession_def
        createSession_begin_def createSession_resume_def Let_def sendMessage_def
        processQueue_def drainLoop_live)
  note th = createSession_outcome[where x = "''s2''" and s = twoSessions and uuid = "''u3''"
      and created = "Inr 3" and tCreated = 3000 and tActivity = 3001 and arg = None
      and newId = "''u3''" and s' = twoSessions and c = 3 and envRole = None
      and evs = "take 5 day"]
  note t1 = th[THEN conjunct1]
    and t2 = th[THEN conjunct2, THEN conjunct1]
    and t3 = th[THEN conjunct2, THEN conjunct2, THEN conjunct1]
    and t5 = th[THEN conjunct2, THEN conjunct2, THEN conjunct2, THEN conjunct2, THEN conjunct1]
    and t6 = th[THEN conjunct2, THEN conjunct2, THEN conjunct2, THEN conjunct2, THEN conjunct2,
        THEN conjunct1]
    and t7 = th[THEN conjunct2, THEN conjunct2, THEN conjunct2, THEN conjunct2, THEN conjunct2,
        THEN conjunct2, THEN conjunct1]
    and t8 = th[THEN conjunct2, THEN conjunct2, THEN conjunct2, THEN conjunct2, THEN conjunct2,
        THEN conjunct2, THEN conjunct2, THEN conjunct1]
    and t9 = th[THEN conjunct2, THEN conjunct2, THEN conjunct2, THEN conjunct2, THEN conjunct2,
        THEN conjunct2, THEN conjunct2, THEN conjunct2, THEN conjunct1]
    and t10 = th[THEN conjunct2, THEN conjunct2, THEN conjunct2, THEN conjunct2, THEN conjunct2,
        THEN conjunct2, THEN conjunct2, THEN conjunct2, THEN conjunct2, THEN conjunct1]
  from t1 dup room
  have a: "createSession twoSessions (Some ''s2'') ''u3'' (Inr 3) 3000 3001
      = (Inl (SessionExists ''s2''), twoSessions)"
    by simp
  from t3 room chosen
  have b: "createSession_begin twoSessions None ''u3'' = Inr ''u3''"
    by simp
  with t2 have c: "createSession twoSessions None ''u3'' (Inr 3) 3000 3001
      = createSession_resume twoSessions ''u3'' (Inr 3) 3000 3001"
    by simp
  from t8 t9 other
  have d: "map_of (sessions (snd (createSession_resume twoSessions ''u3'' (Inr 3) 3000 3001))) ''s1''
      = map_of (sessions twoSessions) ''s1''"
    "heap (snd (createSession_resume twoSessions ''u3'' (Inr 3) 3000 3001)) 0
      = heap twoSessions 0"
    by simp_all
  from t10 reached have e: "(0::nat) \<noteq> nextAddr (run (constructor None) (take 5 day))"
    by (auto dest: bspec)
  note f = t5 t6 t7
  from a b c d e f show ?thesis
    by (simp add: twoSessions_fields)
qed

text \<open>
  Claim C6 as the specification states it fails. When the map is full, a call with an id
  that is live fails with \<^verbatim>\<open>Maximum concurrent sessions\<close>, the test of the ceiling coming
  first, and not with the error of the duplicate id. And \<open>createdAt\<close> and \<open>lastActivity\<close>
  are two reads of the clock: here the first gives 1000 and the second 1001.
\<close>

theorem createSession_full_store_counterexample:
  "map_of (sessions tenSessions) ''a'' = Some 0
   \<and> length (sessions tenSessions) = 10
   \<and> createSession tenSessions (Some ''a'') ''u'' (Inr 12) 12000 12001
       = (Inl (MaxSessionsReached 10), tenSessions)
   \<and> createdAt (heap (snd (createSession started (Some ''s1'') ''u1'' (Inr 1) 1000 1001)) 0) = 1000
   \<and> lastActivity (heap (snd (createSession started (Some ''s1'') ''u1'' (Inr 1) 1000 1001)) 0)
       = 1001"
  using createSession_full[of tenSessions "Some ''a''" "''u''" "Inr 12" 12000 12001]
  by (simp add: tenSessions_fields started_fields createSession_def createSession_begin_def
      createSession_resume_def Let_def)

subsection \<open>The ceiling on the number of sessions\<close>

text \<open>
  Claim C3 at eleven calls that overlap. \<^verbatim>\<open>createSession\<close> tests the size of the map
  before its \<^verbatim>\<open>await\<close> and adds the entry after it. When eleven calls with distinct ids
  are made on an initialised server with no session before the engine gives the first
  context, each of them passes the tests, the eleventh included, so the eleven calls are
  suspended together; once the contexts are given the map has eleven sessions under a
  ceiling of ten, and no call has failed. When each call ends before the next is made,
  the first ten succeed and the eleventh fails with \<^verbatim>\<open>Maximum concurrent sessions\<close>,
  leaving the state as it was.
\<close>

theorem overlapping_creates_exceed_ceiling:
  "maxConcurrentSessions (run started overlapping) = 10
   \<and> creating (run started (take 10 overlapping)) = take 10 elevenIds
   \<and> sessions (run started (take 10 overlapping)) = []
   \<and> createSession_begin (run started (take 10 overlapping)) (Some ''k'') ''u'' = Inr ''k''
   \<and> creating (run started (take 11 overlapping)) = elevenIds
   \<and> map fst (sessions (run started overlapping)) = elevenIds
   \<and> length (sessions (run started overlapping)) = 11
   \<and> map (\<lambda>(sid, a). contextOf (heap (run started overlapping) a))
        (sessions (run started overlapping)) = elevenContexts
   \<and> map fst (sessions (run started creations)) = take 10 elevenIds
   \<and> createSession tenSessions (Some ''k'') ''u'' (Inr 11) 11000 11001
       = (Inl (MaxSessionsReached 10), tenSessions)"
proof -
  have "maxConcurrentSessions (run started overlapping) = 10"
    "creating (run started (take 10 overlapping)) = take 10 elevenIds"
    "sessions (run started (take 10 overlapping)) = []"
    "createSession_begin (run started (take 10 overlapping)) (Some ''k'') ''u'' = Inr ''k''"
    "creating (run started (take 11 overlapping)) = elevenIds"
    "map fst (sessions (run started overlapping)) = elevenIds"
    "length (sessions (run started overlapping)) = 11"
    "map (\<lambda>(sid, a). contextOf (heap (run started overlapping) a))
        (sessions (run started overlapping)) = elevenContexts"
    "map fst (sessions (run started creations)) = take 10 elevenIds"
    by (simp_all add: overlapping_def creations_def elevenIds_def elevenContexts_def run_def
        started_fields createSession_def createSession_begin_def createSession_resume_def
        Let_def)
  moreover have "createSession tenSessions (Some ''k'') ''u'' (Inr 11) 11000 11001
       = (Inl (MaxSessionsReached 10), tenSessions)"
    using createSession_full[of tenSessions "Some ''k''" "''u''" "Inr 11" 11000 11001]
    by (simp add: tenSessions_fields)
  ultimately show ?thesis
    by (intro conjI)
qed

subsection \<open>The system role\<close>

lemma promptTexts_append: "promptTexts (xs @ ys) = promptTexts xs @ promptTexts ys"
  by (induction xs rule: promptTexts.induct) simp_all

lemma prefix_reinforced: "prefix (reinforcedMessage r []) (reinforcedMessage r m)"
  by (simp add: reinforcedMessage_def)

lemma drainLoop_role:
  "systemRole (drainLoop s t) = systemRole s
   \<and> (\<exists>new. effects (drainLoop s t) = effects s @ new
         \<and> list_all (prefix (reinforcedMessage (systemRole s) [])) (promptTexts new))"
proof (induction s t rule: drainLoop.induct)
  case (1 s tUser)
  show ?case
  proof (cases "processingQueue s")
    case Nil
    then show ?thesis by (simp add: drainLoop_empty)
  next
    case (Cons req rest)
    show ?thesis
    proof (cases "map_of (sessions s) (sessionId req)")
      case None
      then have "processMessage_begin (s\<lparr>processingQueue := rest\<rparr>) (sessionId req) (message req) tUser
          = Inl (SessionNotFound (sessionId req))"
        by (simp add: processMessage_begin_def)
      from "1.IH"[OF Cons this] show ?thesis
        by (auto simp: drainLoop_missing[OF Cons None] promptTexts_append)
    next
      case (Some a)
      show ?thesis
        by (simp add: drainLoop_live[OF Cons Some] prefix_reinforced)
    qed
  qed
qed

lemma deleteEach_role:
  "systemRole (deleteEach s ids disposal) = systemRole s
   \<and> (\<exists>new. effects (deleteEach s ids disposal) = effects s @ new \<and> promptTexts new = [])"
proof (induction ids arbitrary: s)
  case Nil
  then show ?case by simp
next
  case (Cons sid ids)
  have "systemRole (snd (deleteSession s sid (disposal sid))) = systemRole s
    \<and> (\<exists>new. effects (snd (deleteSession s sid (disposal sid))) = effects s @ new \<and> promptTexts new = [])"
    by (auto simp: deleteSession_def deleteSession_begin_def deleteSession_resume_def split: option.splits)
  with Cons[of "snd (deleteSession s sid (disposal sid))"] show ?case
    by (auto simp: promptTexts_append)
qed

lemma step_role:
  assumes "\<not> isRoleUpdate e"
  shows "systemRole (step s e) = systemRole s
   \<and> (\<exists>new. effects (step s e) = effects s @ new
         \<and> list_all (prefix (reinforcedMessage (systemRole s) [])) (promptTexts new))"
proof (cases e)
  case (Initialize loaded)
  then show ?thesis by (simp add: initialize_def split: option.splits)
next
  case (CreateSession arg uuid created tc ta)
  then show ?thesis by (simp add: createSession_def createSession_begin_def createSession_resume_def Let_def split: sum.splits)
next
  case (SendMessage sid msg now tUser)
  show ?thesis
  proof (cases "map_of (sessions s) sid = None \<or> currentlyProcessing s")
    case True
    then show ?thesis using SendMessage
      by (auto simp: sendMessage_def processQueue_def)
  next
    case False
    then show ?thesis
      using SendMessage
        drainLoop_role[of "s\<lparr>processingQueue := processingQueue s @
                    [\<lparr>sessionId = sid, message = msg, promise = nextPromise s,
                      enqueuedAt = now\<rparr>],
                 nextPromise := Suc (nextPromise s), currentlyProcessing := True\<rparr>" tUser]
      by (auto simp: sendMessage_def processQueue_def)
  qed
next
  case (PromptSettled k outcome tA tL tUser)
  show ?thesis
  proof (cases "length (awaiting s) \<le> k")
    case True
    then show ?thesis using PromptSettled by (simp add: promptSettled_def)
  next
    case False
    show ?thesis
    proof (cases outcome)
      case (Inl failure)
      then show ?thesis
        using PromptSettled False
          drainLoop_role[of "s\<lparr>awaiting := take k (awaiting s) @ drop (Suc k) (awaiting s),
              effects := effects s @
                [Reject (promise (fst (awaiting s ! k))) (ProcessMessageFailed failure)]\<rparr>" tUser]
        by (auto simp: promptSettled_def processMessage_resume_def Let_def promptTexts_append)
    next
      case (Inr raw)
      then show ?thesis
        using PromptSettled False
          drainLoop_role[of "s\<lparr>awaiting := take k (awaiting s) @ drop (Suc k) (awaiting s),
              heap := (heap s)(snd (awaiting s ! k) := (heap s (snd (awaiting s ! k)))
                 \<lparr>history := history (heap s (snd (awaiting s ! k))) @
                    [\<lparr>role = ''assistant'', content = trim raw, timestamp = tA\<rparr>],
                  lastActivity := tL\<rparr>),
              effects := effects s @
                [Resolve (promise (fst (awaiting s ! k))) (trim raw)]\<rparr>" tUser]
        by (auto simp: promptSettled_def processMessage_resume_def Let_def promptTexts_append)
    qed
  qed
next
  case (DeleteSession sid disposal)
  then show ?thesis by (auto simp: deleteSession_def deleteSession_begin_def deleteSession_resume_def split: option.splits)
next
  case (UpdateSystemRole newRole)
  with assms show ?thesis by simp
next
  case (CleanupInactiveSessions maxAge now disposal)
  then show ?thesis
    using deleteEach_role[of s "sessionsToDelete (heap s) maxAge now (sessions s)" disposal]
    by (auto simp: cleanupInactiveSessions_def Let_def)
next
  case (CreateSessionBegin arg uuid)
  then show ?thesis by (simp split: sum.splits)
next
  case (ContextSettled k created tc ta)
  then show ?thesis by (simp add: createSession_resume_def split: sum.splits)
next
  case (DeleteSessionBegin sid)
  then show ?thesis by (auto simp: deleteSession_begin_def split: option.splits)
next
  case (DisposeSettled k disposal)
  then show ?thesis by (simp add: deleteSession_resume_def split: option.splits)
qed

lemma run_role:
  "list_all (\<lambda>e. \<not> isRoleUpdate e) evs \<Longrightarrow>
   systemRole (run s evs) = systemRole s
   \<and> (\<exists>new. effects (run s evs) = effects s @ new
         \<and> list_all (prefix (reinforcedMessage (systemRole s) [])) (promptTexts new))"
proof (induction evs arbitrary: s)
  case Nil
  then show ?case by (simp add: run_def)
next
  case (Cons e evs)
  then have e: "\<not> isRoleUpdate e" and evs: "list_all (\<lambda>e. \<not> isRoleUpdate e) evs"
    by simp_all
  have run: "run s (e # evs) = run (step s e) evs" by (simp add: run_def)
  from step_role[OF e, of s] Cons.IH[OF evs, of "step s e"] show ?case
    unfolding run by (auto simp: promptTexts_append)
qed

lemma step_roleAfter: "systemRole (step s e) = roleAfter (systemRole s) [e]"
proof (cases "isRoleUpdate e")
  case False
  then have "roleAfter (systemRole s) [e] = systemRole s"
    by (cases e) simp_all
  with step_role[OF False, of s] show ?thesis by simp
next
  case True
  then obtain newRole where "e = UpdateSystemRole newRole" by (cases e) simp_all
  then show ?thesis by (cases newRole) (simp_all add: updateSystemRole_def)
qed

lemma roleAfter_Cons: "roleAfter r (e # evs) = roleAfter (roleAfter r [e]) evs"
proof (cases e)
  case (UpdateSystemRole newRole)
  then show ?thesis by (cases newRole) simp_all
qed simp_all

lemma run_roleAfter: "systemRole (run s evs) = roleAfter (systemRole s) evs"
proof (induction evs arbitrary: s)
  case Nil
  then show ?case by (simp add: run_def)
next
  case (Cons e evs)
  have "run s (e # evs) = run (step s e) evs" by (simp add: run_def)
  then show ?case
    using Cons[of "step s e"] step_roleAfter[of s e] roleAfter_Cons[of "systemRole s" e evs]
    by simp
qed

lemma chat_drainLoop:
  "session (heap (drainLoop s t) a) = session (heap s a)
   \<and> nextAddr (drainLoop s t) = nextAddr s"
proof (induction s t rule: drainLoop.induct)
  case (1 s tUser)
  show ?case
  proof (cases "processingQueue s")
    case Nil
    then show ?thesis by (simp add: drainLoop_empty)
  next
    case (Cons req rest)
    show ?thesis
    proof (cases "map_of (sessions s) (sessionId req)")
      case None
      then have "processMessage_begin (s\<lparr>processingQueue := rest\<rparr>) (sessionId req) (message req) tUser
          = Inl (SessionNotFound (sessionId req))"
        by (simp add: processMessage_begin_def)
      from "1.IH"[OF Cons this] show ?thesis
        by (simp add: drainLoop_missing[OF Cons None])
    next
      case (Some b)
      show ?thesis
        by (simp add: drainLoop_live[OF Cons Some])
    qed
  qed
qed

lemma chat_deleteEach:
  "heap (deleteEach s ids disposal) = heap s
   \<and> nextAddr (deleteEach s ids disposal) = nextAddr s"
proof (induction ids arbitrary: s)
  case Nil
  then show ?case by simp
next
  case (Cons sid ids)
  have "heap (snd (deleteSession s sid (disposal sid))) = heap s
      \<and> nextAddr (snd (deleteSession s sid (disposal sid))) = nextAddr s"
    by (simp add: deleteSession_def deleteSession_begin_def deleteSession_resume_def
        split: option.splits)
  with Cons[of "snd (deleteSession s sid (disposal sid))"] show ?case
    by simp
qed

lemma chat_step:
  assumes "a < nextAddr s"
  shows "session (heap (step s e) a) = session (heap s a) \<and> nextAddr s \<le> nextAddr (step s e)"
proof (cases e)
  case (Initialize loaded)
  then show ?thesis by (simp add: initialize_def split: option.splits)
next
  case (CreateSession arg uuid created tc ta)
  with assms show ?thesis
    by (simp add: createSession_def createSession_begin_def createSession_resume_def Let_def
        split: sum.splits)
next
  case (SendMessage sid msg now tUser)
  show ?thesis
  proof (cases "map_of (sessions s) sid = None \<or> currentlyProcessing s")
    case True
    then show ?thesis using SendMessage
      by (auto simp: sendMessage_def processQueue_def)
  next
    case False
    then show ?thesis
      using SendMessage
        chat_drainLoop[of "s\<lparr>processingQueue := processingQueue s @
                    [\<lparr>sessionId = sid, message = msg, promise = nextPromise s,
                      enqueuedAt = now\<rparr>],
                 nextPromise := Suc (nextPromise s), currentlyProcessing := True\<rparr>" tUser a]
      by (auto simp: sendMessage_def processQueue_def)
  qed
next
  case (PromptSettled k outcome tA tL tUser)
  show ?thesis
  proof (cases "length (awaiting s) \<le> k")
    case True
    then show ?thesis using PromptSettled by (simp add: promptSettled_def)
  next
    case False
    show ?thesis
    proof (cases outcome)
      case (Inl failure)
      then show ?thesis
        using PromptSettled False
          chat_drainLoop[of "s\<lparr>awaiting := take k (awaiting s) @ drop (Suc k) (awaiting s),
              effects := effects s @
                [Reject (promise (fst (awaiting s ! k))) (ProcessMessageFailed failure)]\<rparr>" tUser a]
        by (simp add: promptSettled_def processMessage_resume_def Let_def)
    next
      case (Inr raw)
      then show ?thesis
        using PromptSettled False
          chat_drainLoop[of "s\<lparr>awaiting := take k (awaiting s) @ drop (Suc k) (awaiting s),
              heap := (heap s)(snd (awaiting s ! k) := (heap s (snd (awaiting s ! k)))
                 \<lparr>history := history (heap s (snd (awaiting s ! k))) @
                    [\<lparr>role = ''assistant'', content = trim raw, timestamp = tA\<rparr>],
                  lastActivity := tL\<rparr>),
              effects := effects s @
                [Resolve (promise (fst (awaiting s ! k))) (trim raw)]\<rparr>" tUser a]
        by (simp add: promptSettled_def processMessage_resume_def Let_def)
    qed
  qed
next
  case (DeleteSession sid disposal)
  then show ?thesis
    by (simp add: deleteSession_def deleteSession_begin_def deleteSession_resume_def
        split: option.splits)
next
  case (UpdateSystemRole newRole)
  then show ?thesis by (cases newRole) (simp_all add: updateSystemRole_def)
next
  case (CleanupInactiveSessions maxAge now disposal)
  then show ?thesis
    by (simp add: cleanupInactiveSessions_def Let_def chat_deleteEach)
next
  case (CreateSessionBegin arg uuid)
  then show ?thesis by (simp split: sum.splits)
next
  case (ContextSettled k created tc ta)
  with assms show ?thesis by (simp add: createSession_resume_def split: sum.splits)
next
  case (DeleteSessionBegin sid)
  then show ?thesis by (simp add: deleteSession_begin_def split: option.splits)
next
  case (DisposeSettled k disposal)
  then show ?thesis by (simp add: deleteSession_resume_def split: option.splits)
qed

lemma chat_run:
  "a < nextAddr s \<Longrightarrow> session (heap (run s evs) a) = session (heap s a)"
proof (induction evs arbitrary: s)
  case Nil
  then show ?case by (simp add: run_def)
next
  case (Cons e evs)
  have run: "run s (e # evs) = run (step s e) evs" by (simp add: run_def)
  from chat_step[OF Cons.prems, of e] have "a < nextAddr (step s e)"
    and "session (heap (step s e) a) = session (heap s a)"
    using Cons.prems by simp_all
  with Cons.IH[of "step s e"] show ?case
    unfolding run by simp
qed

text \<open>
  Claim C8, as the code has it. \<^verbatim>\<open>updateSystemRole\<close> throws on the empty string, and on
  anything that is not a string, and leaves the state as it was; on a non-empty string it
  replaces the role and nothing else. After any run of jobs \<^verbatim>\<open>getSystemRole\<close> returns the
  role most recently set. The text of the prompt sent for a request is built, when the
  request is taken from the queue, from the role of that moment and the message: so after
  an update to \<open>r\<close>, along any jobs that do not update the role again, the text of every
  prompt sent (for requests queued before the update as well) begins with the system line
  of \<open>r\<close>. The chat session on which the prompt is called is the one built when the
  session was created, with the system role of that moment as its system prompt, and no
  job changes it, an update of the role included.
\<close>

theorem system_role_update:
  "updateSystemRole s (JStr []) = (Inl InvalidSystemRole, s)
   \<and> (falsy newRole \<or> \<not> typeof_string newRole \<longrightarrow>
        updateSystemRole s newRole = (Inl InvalidSystemRole, s))
   \<and> (r \<noteq> [] \<longrightarrow> updateSystemRole s (JStr r) = (Inr (), s\<lparr>systemRole := r\<rparr>))
   \<and> getSystemRole (run s evs) = roleAfter (systemRole s) evs
   \<and> (processingQueue s = req # rest \<and> map_of (sessions s) (sessionId req) = Some a \<longrightarrow>
        effects (drainLoop s tUser) =
          effects s @ [PromptCall (session (heap s a))
                         (''System: '' @ systemRole s @ [CHR 0x0A, CHR 0x0A] @ ''User: ''
                            @ message req)])
   \<and> (r \<noteq> [] \<and> list_all (\<lambda>e. \<not> isRoleUpdate e) later \<longrightarrow>
        getSystemRole (run (snd (updateSystemRole s (JStr r))) later) = r
        \<and> (\<exists>new. effects (run (snd (updateSystemRole s (JStr r))) later) = effects s @ new
              \<and> list_all (prefix (''System: '' @ r @ [CHR 0x0A, CHR 0x0A] @ ''User: ''))
                   (promptTexts new)))
   \<and> session (heap (snd (createSession_resume s newId (Inr c) tCreated tActivity)) (nextAddr s))
        = \<lparr>contextSequence = c, systemPrompt = systemRole s\<rparr>
   \<and> (b < nextAddr s \<longrightarrow> session (heap (run s evs) b) = session (heap s b))"
proof (intro conjI impI)
  show "updateSystemRole s (JStr []) = (Inl InvalidSystemRole, s)"
    by (simp add: updateSystemRole_def)
next
  assume "falsy newRole \<or> \<not> typeof_string newRole"
  then show "updateSystemRole s newRole = (Inl InvalidSystemRole, s)"
    by (simp add: updateSystemRole_def)
next
  assume "r \<noteq> []"
  then show "updateSystemRole s (JStr r) = (Inr (), s\<lparr>systemRole := r\<rparr>)"
    by (simp add: updateSystemRole_def)
next
  show "getSystemRole (run s evs) = roleAfter (systemRole s) evs"
    by (simp add: getSystemRole_def run_roleAfter)
next
  assume "processingQueue s = req # rest \<and> map_of (sessions s) (sessionId req) = Some a"
  then show "effects (drainLoop s tUser) =
          effects s @ [PromptCall (session (heap s a))
                         (''System: '' @ systemRole s @ [CHR 0x0A, CHR 0x0A] @ ''User: ''
                            @ message req)]"
    by (simp add: drainLoop_live reinforcedMessage_def)
next
  assume h: "r \<noteq> [] \<and> list_all (\<lambda>e. \<not> isRoleUpdate e) later"
  then have upd: "snd (updateSystemRole s (JStr r)) = s\<lparr>systemRole := r\<rparr>"
    by (simp add: updateSystemRole_def)
  from h run_role[of later "s\<lparr>systemRole := r\<rparr>"]
  show "getSystemRole (run (snd (updateSystemRole s (JStr r))) later) = r"
    by (simp add: upd getSystemRole_def)
next
  assume h: "r \<noteq> [] \<and> list_all (\<lambda>e. \<not> isRoleUpdate e) later"
  then have upd: "snd (updateSystemRole s (JStr r)) = s\<lparr>systemRole := r\<rparr>"
    by (simp add: updateSystemRole_def)
  from h run_role[of later "s\<lparr>systemRole := r\<rparr>"]
  show "\<exists>new. effects (run (snd (updateSystemRole s (JStr r))) later) = effects s @ new
              \<and> list_all (prefix (''System: '' @ r @ [CHR 0x0A, CHR 0x0A] @ ''User: ''))
                   (promptTexts new)"
    by (simp add: upd reinforcedMessage_def)
next
  show "session (heap (snd (createSession_resume s newId (Inr c) tCreated tActivity)) (nextAddr s))
        = \<lparr>contextSequence = c, systemPrompt = systemRole s\<rparr>"
    by (simp add: createSession_resume_def)
next
  assume "b < nextAddr s"
  then show "session (heap (run s evs) b) = session (heap s b)"
    by (rule chat_run)
qed

theorem system_role_update_witness:
  "updateSystemRole queued JNull = (Inl InvalidSystemRole, queued)
   \<and> getSystemRole (snd (updateSystemRole queued (JStr ''Be terse.''))) = ''Be terse.''
   \<and> effects (run (snd (updateSystemRole queued (JStr ''Be terse.'')))
               [PromptSettled 0 (Inr ''hi'') 7000 7001 7002]) =
       effects queued @
         [Resolve 0 ''hi'',
          PromptCall \<lparr>contextSequence = 2, systemPrompt = ''You are a helpful assistant.''\<rparr>
            (''System: Be terse.'' @ [CHR 0x0A, CHR 0x0A] @ ''User: bonjour'')]
   \<and> getSystemRole (run (snd (updateSystemRole queued (JStr ''Be terse.'')))
               [PromptSettled 0 (Inr ''hi'') 7000 7001 7002]) = ''Be terse.''
   \<and> effects (drainLoop queued 7002) =
       effects queued @
         [PromptCall \<lparr>contextSequence = 2, systemPrompt = ''You are a helpful assistant.''\<rparr>
            (''System: You are a helpful assistant.'' @ [CHR 0x0A, CHR 0x0A]
               @ ''User: bonjour'')]
   \<and> session (heap (run queued [UpdateSystemRole (JStr ''Be terse.''),
                                  PromptSettled 0 (Inr ''hi'') 7000 7001 7002]) 1)
       = \<lparr>contextSequence = 2, systemPrompt = ''You are a helpful assistant.''\<rparr>"
proof -
  have bad: "falsy JNull \<or> \<not> typeof_string JNull"
    and r: "''Be terse.'' \<noteq> []"
    and later: "''Be terse.'' \<noteq> [] \<and>
      list_all (\<lambda>e. \<not> isRoleUpdate e) [PromptSettled 0 (Inr ''hi'') 7000 7001 7002]"
    and allocated: "1 < nextAddr queued"
    by (simp_all add: queued_fields)
  have trim: "trim ''hi'' = ''hi''"
    by (rule trim_examples)
  note th = system_role_update[where s = queued and r = "''Be terse.''" and newRole = JNull
      and evs = "[UpdateSystemRole (JStr ''Be terse.''),
                  PromptSettled 0 (Inr ''hi'') 7000 7001 7002]"
      and later = "[PromptSettled 0 (Inr ''hi'') 7000 7001 7002]" and rest = "[]" and a = 1
      and tUser = 7002 and b = 1
      and req = "\<lparr>sessionId = ''s2'', message = ''bonjour'', promise = 1, enqueuedAt = 6002\<rparr>"]
  have head: "processingQueue queued
        = \<lparr>sessionId = ''s2'', message = ''bonjour'', promise = 1, enqueuedAt = 6002\<rparr> # []
      \<and> map_of (sessions queued)
          (sessionId \<lparr>sessionId = ''s2'', message = ''bonjour'', promise = 1, enqueuedAt = 6002\<rparr>)
        = Some 1"
    by (simp add: queued_fields)
  from th bad have null: "updateSystemRole queued JNull = (Inl InvalidSystemRole, queued)"
    by blast
  from th head have before: "effects (drainLoop queued 7002) =
      effects queued @
        [PromptCall (session (heap queued 1))
           (''System: '' @ systemRole queued @ [CHR 0x0A, CHR 0x0A] @ ''User: '' @
              message \<lparr>sessionId = ''s2'', message = ''bonjour'', promise = 1, enqueuedAt = 6002\<rparr>)]"
    by blast
  from th r have upd: "updateSystemRole queued (JStr ''Be terse.'')
      = (Inr (), queued\<lparr>systemRole := ''Be terse.''\<rparr>)"
    by blast
  from th later have role: "getSystemRole (run (snd (updateSystemRole queued (JStr ''Be terse.'')))
               [PromptSettled 0 (Inr ''hi'') 7000 7001 7002]) = ''Be terse.''"
    by blast
  from th allocated
  have kept: "session (heap (run queued [UpdateSystemRole (JStr ''Be terse.''),
                                  PromptSettled 0 (Inr ''hi'') 7000 7001 7002]) 1)
       = session (heap queued 1)"
    by blast
  have "effects (run (queued\<lparr>systemRole := ''Be terse.''\<rparr>)
               [PromptSettled 0 (Inr ''hi'') 7000 7001 7002]) =
       effects queued @
         [Resolve 0 ''hi'',
          PromptCall \<lparr>contextSequence = 2, systemPrompt = ''You are a helpful assistant.''\<rparr>
            (''System: Be terse.'' @ [CHR 0x0A, CHR 0x0A] @ ''User: bonjour'')]"
    by (simp add: run_def promptSettled_def processMessage_resume_def Let_def trim
        queued_fields busy_fields twoSessions_fields drainLoop_live reinforcedMessage_def)
  with null upd role before kept show ?thesis
    by (simp add: getSystemRole_def queued_fields busy_fields twoSessions_fields)
qed

text \<open>
  Claim C8 as the specification states it fails on the role of the creation of the session.
  In \<open>terse\<close> the role has been replaced while a request for \<^verbatim>\<open>s2\<close> was queued. When
  the request is processed, the text of its prompt has the new role, and the prompt is
  called on the chat session of \<^verbatim>\<open>s2\<close>, whose system prompt is still the role that was
  current when \<^verbatim>\<open>s2\<close> was created.
\<close>

theorem system_role_creation_prompt_counterexample:
  "getSystemRole terse = ''Be terse.''
   \<and> effects (promptSettled terse 0 (Inr ''hi'') 7000 7001 7002) =
       effects busy @
         [Resolve 0 ''hi'',
          PromptCall \<lparr>contextSequence = 2, systemPrompt = ''You are a helpful assistant.''\<rparr>
            (''System: Be terse.'' @ [CHR 0x0A, CHR 0x0A] @ ''User: bonjour'')]
   \<and> systemPrompt (session (heap (promptSettled terse 0 (Inr ''hi'') 7000 7001 7002) 1))
       = ''You are a helpful assistant.''"
  by (simp add: getSystemRole_def promptSettled_def processMessage_resume_def Let_def
      terse_fields busy_fields twoSessions_fields trim_examples drainLoop_live
      reinforcedMessage_def)

subsection \<open>The sweep of inactive sessions\<close>









end
